theory Spec2Isabelle
  imports Main "HOL-Library.Word" "HOL-Library.Log_Nat" "HOL-Library.Multiset"
begin

section \<open>Strings\<close>

text \<open>
  A JavaScript string is a sequence of UTF-16 code units. ASCII literals of the source are
  written through \<open>js\<close>.
\<close>

type_synonym jsstring = "16 word list"

definition js :: "string \<Rightarrow> jsstring" where
  "js s = map of_char s"

text \<open>
  \<open>String.prototype.trim\<close> removes WhiteSpace and LineTerminator code points from both
  ends: TAB, LF, VT, FF, CR, SP, NBSP, U+1680, U+2000 to U+200A, U+2028, U+2029, U+202F,
  U+205F, U+3000 and U+FEFF. All of them are single code units.
\<close>

definition isWhiteSpace :: "16 word \<Rightarrow> bool" where
  "isWhiteSpace c \<longleftrightarrow>
     c = 0x9 \<or> c = 0xA \<or> c = 0xB \<or> c = 0xC \<or> c = 0xD \<or> c = 0x20 \<or> c = 0xA0 \<or>
     c = 0x1680 \<or> (0x2000 \<le> c \<and> c \<le> 0x200A) \<or> c = 0x2028 \<or> c = 0x2029 \<or>
     c = 0x202F \<or> c = 0x205F \<or> c = 0x3000 \<or> c = 0xFEFF"

definition trim :: "jsstring \<Rightarrow> jsstring" where
  "trim s = rev (dropWhile isWhiteSpace (rev (dropWhile isWhiteSpace s)))"

section \<open>Numbers\<close>

text \<open>
  JavaScript numbers are IEEE 754 binary64 values, and every arithmetic operation returns
  the exact result rounded to the nearest binary64 value, ties to the even significand.
  \<open>binary64 x\<close> is that rounding of the exact value \<open>x\<close>: with
  \<open>2 ^ e \<le> \<bar>x\<bar> < 2 ^ (e + 1)\<close> the result is the multiple of \<open>2 ^ (e - 52)\<close> nearest
  to \<open>x\<close>. Overflow and subnormal numbers, far from any millisecond count and any
  quotient of two of them, are not represented.
\<close>

definition round_half_even :: "rat \<Rightarrow> int" where
  "round_half_even x =
     (let n = \<lfloor>x\<rfloor>; r = x - of_int n
      in if r < 1 / 2 then n else if 1 / 2 < r then n + 1 else if even n then n else n + 1)"

definition exponent :: "rat \<Rightarrow> int" where
  "exponent x = (if 1 \<le> x then bitlen \<lfloor>x\<rfloor> - 1 else - bitlen (\<lceil>1 / x\<rceil> - 1))"

definition binary64 :: "rat \<Rightarrow> rat" where
  "binary64 x =
     (if x = 0 then 0
      else
        let ulp = 2 powi (exponent \<bar>x\<bar> - 52)
        in of_int (round_half_even (x / ulp)) * ulp)"

text \<open>
  Millisecond counts and clock readings are numbers with integer values. The sum and the
  difference of two of them is the exact integer rounded to binary64, which is again an
  integer; up to \<open>2 ^ 53\<close> in absolute value the rounding changes nothing.
\<close>

definition num :: "int \<Rightarrow> int" where
  "num n = \<lfloor>binary64 (of_int n)\<rfloor>"

definition num_add :: "int \<Rightarrow> int \<Rightarrow> int" where
  "num_add a b = num (a + b)"

definition num_sub :: "int \<Rightarrow> int \<Rightarrow> int" where
  "num_sub a b = num (a - b)"

section \<open>Data model (page.tsx)\<close>

text \<open>
  \<open>interface Task { id: string; name: string; elapsed: number; isDevOps: boolean }\<close>.
  The field \<open>id\<close> is called \<open>id_task\<close> here. \<open>elapsed\<close> counts milliseconds: a
  number with an integer value, on which the source computes with \<open>num_add\<close> and
  \<open>num_sub\<close>.
\<close>

record Task =
  id_task :: jsstring
  name :: jsstring
  elapsed :: int
  isDevOps :: bool

text \<open>
  The component state the timer core works on: the two persisted values \<open>tasks\<close> and
  \<open>activeTaskId\<close> (\<open>string | null\<close>) and the ref \<open>activeStartRef\<close> (\<open>number | null\<close>).
\<close>

record engine =
  tasks :: "Task list"
  activeTaskId :: "jsstring option"
  activeStartRef :: "int option"

text \<open>
  A handler of the component does nothing but call the setters returned by
  \<open>useLocalStorage\<close>. \<open>setTasks\<close> is always called with an updater function
  (\<open>setTasks((prev) => ...)\<close>), \<open>setActiveTaskId\<close> always with a value.
\<close>

datatype setter = setActiveTaskId "jsstring option" | setTasks "Task list \<Rightarrow> Task list"

fun apply_setter :: "engine \<Rightarrow> setter \<Rightarrow> engine" where
  "apply_setter s (setActiveTaskId v) = s\<lparr>activeTaskId := v\<rparr>"
| "apply_setter s (setTasks f) = s\<lparr>tasks := f (tasks s)\<rparr>"

text \<open>The states a handler's setter calls pass through, one per call, and the last of them.\<close>

fun trace :: "engine \<Rightarrow> setter list \<Rightarrow> engine list" where
  "trace s [] = []"
| "trace s (c # cs) = apply_setter s c # trace (apply_setter s c) cs"

definition dispatch :: "engine \<Rightarrow> setter list \<Rightarrow> engine" where
  "dispatch s cs = foldl apply_setter s cs"

section \<open>Task actions (page.tsx, lines 120 to 185)\<close>

text \<open>
  Each action is the list of setter calls it makes. The values an action closes over
  (\<open>activeTaskId\<close>, \<open>tasks\<close>) are arguments.
  \<open>String.prototype.toLowerCase\<close> is a built-in and is the argument \<open>toLowerCase\<close>.
\<close>

text \<open>
  \<open>generateId()\<close> is \<open>Date.now().toString(36) + Math.random().toString(36).slice(2, 7)\<close>.
  Its arguments here are the clock reading \<open>now\<close> and the text \<open>rnd\<close> that
  \<open>Math.random().toString(36)\<close> returns at the call. \<open>toString36\<close> writes an integer in
  base 36 with the digits 0 to 9 and a to z.
\<close>

definition digit36 :: "nat \<Rightarrow> 16 word" where
  "digit36 d = (if d < 10 then 0x30 + of_nat d else 0x61 + of_nat (d - 10))"

fun digits36 :: "nat \<Rightarrow> jsstring" where
  "digits36 n = (if n < 36 then [digit36 n] else digits36 (n div 36) @ [digit36 (n mod 36)])"

definition toString36 :: "int \<Rightarrow> jsstring" where
  "toString36 n = (if n < 0 then 0x2D # digits36 (nat (- n)) else digits36 (nat n))"

definition generateId :: "int \<Rightarrow> jsstring \<Rightarrow> jsstring" where
  "generateId now rnd = toString36 now @ take 5 (drop 2 rnd)"

definition startTask :: "jsstring \<Rightarrow> setter list" where
  "startTask taskId = [setActiveTaskId (Some taskId)]"

definition pauseTask :: "setter list" where
  "pauseTask = [setActiveTaskId None]"

definition toggleTask :: "jsstring option \<Rightarrow> jsstring \<Rightarrow> setter list" where
  "toggleTask active taskId = (if active = Some taskId then pauseTask else startTask taskId)"

definition addTask ::
  "(jsstring \<Rightarrow> jsstring) \<Rightarrow> Task list \<Rightarrow> jsstring \<Rightarrow> bool \<Rightarrow> int \<Rightarrow> jsstring \<Rightarrow>
     setter list" where
  "addTask toLowerCase ts nm isDevOps_arg now rnd =
     (let trimmed = trim nm in
      if trimmed = [] then []
      else if list_ex (\<lambda>t. toLowerCase (name t) = toLowerCase trimmed) ts then []
      else [setTasks (\<lambda>prev. prev @
              [\<lparr>id_task = generateId now rnd, name = trimmed, elapsed = 0,
                isDevOps = isDevOps_arg\<rparr>])])"

definition removeTask :: "jsstring option \<Rightarrow> jsstring \<Rightarrow> setter list" where
  "removeTask active taskId =
     (if active = Some taskId then [setActiveTaskId None] else []) @
     [setTasks (filter (\<lambda>t. id_task t \<noteq> taskId))]"

text \<open>The "Clear All Tasks" button, after the confirmation.\<close>

definition clearAll :: "setter list" where
  "clearAll = [setTasks (\<lambda>prev. []), setActiveTaskId None]"

section \<open>Timer interval (page.tsx, lines 95 to 116)\<close>

text \<open>\<open>!activeTaskId\<close> holds for \<open>null\<close> and for the empty string.\<close>

definition falsy :: "jsstring option \<Rightarrow> bool" where
  "falsy a \<longleftrightarrow> a = None \<or> a = Some []"

text \<open>
  The body of the effect, run after a render in which \<open>activeTaskId\<close> changed; \<open>now\<close> is
  the reading of \<open>Date.now()\<close>. With a falsy id no interval is created.
\<close>

definition timer_effect :: "engine \<Rightarrow> int \<Rightarrow> engine" where
  "timer_effect s now =
     (if falsy (activeTaskId s) then s\<lparr>activeStartRef := None\<rparr>
      else s\<lparr>activeStartRef := Some now\<rparr>)"

text \<open>
  The interval callback at clock reading \<open>now\<close>. An interval exists only while the id is
  truthy, so with a falsy id no callback runs and the state stays as it is.
\<close>

definition credit :: "jsstring option \<Rightarrow> int \<Rightarrow> Task \<Rightarrow> Task" where
  "credit active delta t =
     (if Some (id_task t) = active then t\<lparr>elapsed := num_add (elapsed t) delta\<rparr> else t)"

definition interval_tick :: "engine \<Rightarrow> int \<Rightarrow> engine" where
  "interval_tick s now =
     (if falsy (activeTaskId s) then s
      else
        let delta = num_sub now (case activeStartRef s of None \<Rightarrow> now | Some t0 \<Rightarrow> t0)
        in dispatch (s\<lparr>activeStartRef := Some now\<rparr>)
             [setTasks (map (credit (activeTaskId s) delta))])"

section \<open>Events\<close>

text \<open>
  One event is one handler call or one interval callback, at a clock reading; \<open>AddTask\<close>
  carries the name, the flag and the text of \<open>Math.random().toString(36)\<close>. After a
  handler the component renders again, and the timer effect runs when \<open>activeTaskId\<close>
  has changed.
\<close>

datatype event =
    StartTask jsstring
  | PauseTask
  | ToggleTask jsstring
  | AddTask jsstring bool jsstring
  | RemoveTask jsstring
  | ClearAll
  | Tick

fun handler ::
  "(jsstring \<Rightarrow> jsstring) \<Rightarrow> engine \<Rightarrow> int \<Rightarrow> event \<Rightarrow> setter list" where
  "handler lc s now (StartTask i) = startTask i"
| "handler lc s now PauseTask = pauseTask"
| "handler lc s now (ToggleTask i) = toggleTask (activeTaskId s) i"
| "handler lc s now (AddTask nm d rnd) = addTask lc (tasks s) nm d now rnd"
| "handler lc s now (RemoveTask i) = removeTask (activeTaskId s) i"
| "handler lc s now ClearAll = clearAll"
| "handler lc s now Tick = []"

definition rerender :: "engine \<Rightarrow> engine \<Rightarrow> int \<Rightarrow> engine" where
  "rerender old s now = (if activeTaskId s \<noteq> activeTaskId old then timer_effect s now else s)"

definition step :: "(jsstring \<Rightarrow> jsstring) \<Rightarrow> engine \<Rightarrow> int \<times> event \<Rightarrow> engine" where
  "step lc s ev =
     (case ev of
        (now, Tick) \<Rightarrow> interval_tick s now
      | (now, e) \<Rightarrow> rerender s (dispatch s (handler lc s now e)) now)"

definition run :: "(jsstring \<Rightarrow> jsstring) \<Rightarrow> engine \<Rightarrow> (int \<times> event) list \<Rightarrow> engine" where
  "run lc s evs = foldl (step lc) s evs"

text \<open>The ids that are active in a state, and the tasks a tick changes.\<close>

definition active_ids :: "engine \<Rightarrow> jsstring set" where
  "active_ids s = {i. activeTaskId s = Some i}"

definition credited :: "engine \<Rightarrow> engine \<Rightarrow> Task list" where
  "credited s s' = map fst (filter (\<lambda>(t, t'). t \<noteq> t') (zip (tasks s) (tasks s')))"

text \<open>
  Case folding of the letters A to Z, an instance of the argument \<open>toLowerCase\<close> for
  concrete runs on names made of ASCII characters, where the built-in does the same.
\<close>

definition ascii_toLowerCase :: "jsstring \<Rightarrow> jsstring" where
  "ascii_toLowerCase s = map (\<lambda>c. if 0x41 \<le> c \<and> c \<le> 0x5A then c + 0x20 else c) s"

text \<open>\<open>const activeTask = tasks.find((t) => t.id === activeTaskId) ?? null\<close>.\<close>

definition activeTask :: "engine \<Rightarrow> Task option" where
  "activeTask s = find (\<lambda>t. Some (id_task t) = activeTaskId s) (tasks s)"

text \<open>A state with three tasks, for concrete runs.\<close>

definition abc_state :: engine where
  "abc_state =
     \<lparr>tasks = [\<lparr>id_task = js ''a'', name = js ''Meeting'', elapsed = 0, isDevOps = False\<rparr>,
               \<lparr>id_task = js ''b'', name = js ''Admin'', elapsed = 0, isDevOps = False\<rparr>,
               \<lparr>id_task = js ''c'', name = js ''Email'', elapsed = 0, isDevOps = False\<rparr>],
      activeTaskId = None, activeStartRef = None\<rparr>"

text \<open>The interval callback run once at each of the given clock readings, in order.\<close>

definition ticks :: "engine \<Rightarrow> int list \<Rightarrow> engine" where
  "ticks s nows = foldl interval_tick s nows"

section \<open>Persistent store (useLocalStorage.ts)\<close>

text \<open>
  What the hook needs from the browser. \<open>typeof window === "undefined"\<close> is \<open>None\<close>.
  Otherwise \<open>window.localStorage.getItem(key)\<close> returns the stored text or \<open>null\<close>, or
  throws when access to the storage is denied. \<open>JSON.parse(item) as T\<close> is a built-in
  followed by a cast that is erased at run time; it is the argument \<open>JSON_parse\<close>, which
  throws on a text that is not JSON and returns the parsed value otherwise.
\<close>

datatype js_exn = SyntaxError | SecurityError

type_synonym storage = "jsstring \<Rightarrow> js_exn + jsstring option"

definition readFromStorage ::
  "(jsstring \<Rightarrow> js_exn + 'v) \<Rightarrow> storage option \<Rightarrow> jsstring \<Rightarrow> 'v \<Rightarrow> 'v" where
  "readFromStorage JSON_parse window key initialValue =
     (case window of
        None \<Rightarrow> initialValue
      | Some getItem \<Rightarrow>
          (case getItem key of
             Inl e \<Rightarrow> initialValue
           | Inr None \<Rightarrow> initialValue
           | Inr (Some item) \<Rightarrow>
               if item = [] then initialValue
               else (case JSON_parse item of Inl e \<Rightarrow> initialValue | Inr v \<Rightarrow> v)))"

text \<open>
  The value \<open>useLocalStorage\<close> returns when the component mounts: \<open>storedValue\<close> is
  initialised by \<open>readFromStorage\<close>, and \<open>hydrated\<close> is the result of \<open>useHydrated()\<close>.
\<close>

definition useLocalStorage ::
  "(jsstring \<Rightarrow> js_exn + 'v) \<Rightarrow> storage option \<Rightarrow> bool \<Rightarrow> jsstring \<Rightarrow> 'v \<Rightarrow> 'v" where
  "useLocalStorage JSON_parse window hydrated key initialValue =
     (let storedValue = readFromStorage JSON_parse window key initialValue
      in if hydrated then storedValue else initialValue)"

text \<open>
  The state of the component when it mounts (page.tsx, lines 64 to 72 and 81), after the
  timer effect has run at clock reading \<open>now\<close>.
\<close>

definition Switchboard_initial ::
  "(jsstring \<Rightarrow> js_exn + Task list) \<Rightarrow> (jsstring \<Rightarrow> js_exn + jsstring option) \<Rightarrow>
     storage option \<Rightarrow> bool \<Rightarrow> int \<Rightarrow> engine" where
  "Switchboard_initial parse_tasks parse_active window hydrated now =
     timer_effect
       \<lparr>tasks = useLocalStorage parse_tasks window hydrated (js ''switchboard-tasks'') [],
        activeTaskId = useLocalStorage parse_active window hydrated (js ''switchboard-active'') None,
        activeStartRef = None\<rparr> now"

text \<open>
  Values as \<open>JSON.parse\<close> returns them, before any cast. The numbers met here have
  integer values.
\<close>

datatype json =
    JNull
  | JBool bool
  | JNumber int
  | JString jsstring
  | JArray "json list"
  | JObject "(jsstring \<times> json) list"

fun is_JArray :: "json \<Rightarrow> bool" where
  "is_JArray (JArray xs) = True"
| "is_JArray j = False"

text \<open>
  Fragments of \<open>JSON.parse\<close> for concrete runs, each used only on storages whose texts
  it treats as \<open>JSON.parse\<close> does. The first parses a text of decimal digits without a
  leading zero to a number and is used on such texts and on texts that are not JSON. The
  second, at type \<open>string | null\<close>, parses \<open>null\<close> and a quoted text without quotes,
  backslashes and control characters. The third, at type \<open>Task[]\<close>, parses the empty
  array and is used only where nothing is stored under the key of the tasks.
\<close>

definition isDigit :: "16 word \<Rightarrow> bool" where
  "isDigit c \<longleftrightarrow> 0x30 \<le> c \<and> c \<le> 0x39"

definition JSON_parse_digits :: "jsstring \<Rightarrow> js_exn + json" where
  "JSON_parse_digits item =
     (if item \<noteq> [] \<and> list_all isDigit item \<and> (length item = 1 \<or> hd item \<noteq> 0x30)
      then Inr (JNumber (num (foldl (\<lambda>n c. 10 * n + (uint c - 0x30)) 0 item)))
      else Inl SyntaxError)"

definition JSON_parse_string_or_null :: "jsstring \<Rightarrow> js_exn + jsstring option" where
  "JSON_parse_string_or_null item =
     (if item = js ''null'' then Inr None
      else if 2 \<le> length item \<and> hd item = 0x22 \<and> last item = 0x22 \<and>
              list_all (\<lambda>c. c \<noteq> 0x22 \<and> c \<noteq> 0x5C \<and> 0x20 \<le> c) (butlast (tl item))
      then Inr (Some (butlast (tl item)))
      else Inl SyntaxError)"

definition JSON_parse_empty_array :: "jsstring \<Rightarrow> js_exn + Task list" where
  "JSON_parse_empty_array item = (if item = js ''[]'' then Inr [] else Inl SyntaxError)"

text \<open>
  A storage that holds the text \<open>"gone"\<close> (with its quotes) under \<open>switchboard-active\<close> and
  nothing else; one that holds the text \<open>5\<close> under \<open>switchboard-tasks\<close>; one that holds
  the text \<open>{oops\<close>, which is not JSON, under \<open>switchboard-tasks\<close> and the empty text under
  \<open>switchboard-active\<close>; and one whose every access throws.
\<close>

definition storage_active_only :: storage where
  "storage_active_only key =
     (if key = js ''switchboard-active'' then Inr (Some (0x22 # js ''gone'' @ [0x22]))
      else Inr None)"

definition storage_tasks_5 :: storage where
  "storage_tasks_5 key =
     (if key = js ''switchboard-tasks'' then Inr (Some (js ''5'')) else Inr None)"

definition storage_corrupt :: storage where
  "storage_corrupt key =
     (if key = js ''switchboard-tasks'' then Inr (Some (js ''{oops''))
      else if key = js ''switchboard-active'' then Inr (Some [])
      else Inr None)"

definition storage_denied :: storage where
  "storage_denied key = Inl SecurityError"

section \<open>Validity of the active id\<close>

definition valid_active :: "engine \<Rightarrow> bool" where
  "valid_active s \<longleftrightarrow>
     (case activeTaskId s of None \<Rightarrow> True | Some a \<Rightarrow> a \<in> id_task ` set (tasks s))"

text \<open>
  The calls the component itself makes: \<open>toggleTask(existing.id)\<close> and
  \<open>toggleTask(task.id)\<close> pass the id of a task of the current render.
\<close>

fun known_id :: "engine \<Rightarrow> event \<Rightarrow> bool" where
  "known_id s (StartTask i) \<longleftrightarrow> i \<in> id_task ` set (tasks s)"
| "known_id s (ToggleTask i) \<longleftrightarrow> i \<in> id_task ` set (tasks s)"
| "known_id s e \<longleftrightarrow> True"

fun known_ids :: "(jsstring \<Rightarrow> jsstring) \<Rightarrow> engine \<Rightarrow> (int \<times> event) list \<Rightarrow> bool" where
  "known_ids lc s [] \<longleftrightarrow> True"
| "known_ids lc s (ev # evs) \<longleftrightarrow> known_id s (snd ev) \<and> known_ids lc (step lc s ev) evs"

section \<open>Adding a custom task (page.tsx, lines 175 to 185)\<close>

text \<open>
  \<open>/^#?\d+$/.test(s)\<close>: an optional \<open>#\<close>, then one or more of the digits 0 to 9, up to the
  end of the string. \<open>s.replace(/^#/, "")\<close> drops a leading \<open>#\<close>.
\<close>

definition test_work_item :: "jsstring \<Rightarrow> bool" where
  "test_work_item s =
     (let r = (case s of [] \<Rightarrow> [] | c # cs \<Rightarrow> if c = 0x23 then cs else s)
      in r \<noteq> [] \<and> list_all isDigit r)"

definition replace_leading_hash :: "jsstring \<Rightarrow> jsstring" where
  "replace_leading_hash s = (case s of [] \<Rightarrow> [] | c # cs \<Rightarrow> if c = 0x23 then cs else s)"

text \<open>
  The handler also empties the input field (\<open>setNewTaskName("")\<close>), which is not part of
  the timer state.
\<close>

definition handleAddCustomTask ::
  "(jsstring \<Rightarrow> jsstring) \<Rightarrow> Task list \<Rightarrow> jsstring \<Rightarrow> int \<Rightarrow> jsstring \<Rightarrow> setter list" where
  "handleAddCustomTask toLowerCase ts newTaskName now rnd =
     (if trim newTaskName \<noteq> [] then
        let isDevOps_flag = test_work_item (trim newTaskName)
        in addTask toLowerCase ts
             (if isDevOps_flag then js ''WI #'' @ replace_leading_hash (trim newTaskName)
              else newTaskName)
             isDevOps_flag now rnd
      else [])"

text \<open>The state after \<open>addTask("Meeting")\<close> on the empty state, for concrete runs.\<close>

definition meeting_state :: engine where
  "meeting_state = dispatch \<lparr>tasks = [], activeTaskId = None, activeStartRef = None\<rparr>
     (addTask ascii_toLowerCase [] (js ''Meeting'') False 1000 (js ''0.4fzyo82m''))"


section \<open>The revised component (oklch accents, OLED mode)\<close>

text \<open>
  The second version of the component has its own copy of the timer effect and of the
  task actions (lines 228 to 318 of the revised file). They are translated from that
  text, with the suffix \<open>_v2\<close>.
\<close>

definition timer_effect_v2 :: "engine \<Rightarrow> int \<Rightarrow> engine" where
  "timer_effect_v2 s now =
     (if activeTaskId s = None \<or> activeTaskId s = Some [] then s\<lparr>activeStartRef := None\<rparr>
      else s\<lparr>activeStartRef := Some now\<rparr>)"

definition interval_tick_v2 :: "engine \<Rightarrow> int \<Rightarrow> engine" where
  "interval_tick_v2 s now =
     (if activeTaskId s = None \<or> activeTaskId s = Some [] then s
      else
        let delta = num_sub now (case activeStartRef s of None \<Rightarrow> now | Some t0 \<Rightarrow> t0)
        in dispatch (s\<lparr>activeStartRef := Some now\<rparr>)
             [setTasks (\<lambda>prev. map (\<lambda>t. if Some (id_task t) = activeTaskId s
                                        then t\<lparr>elapsed := num_add (elapsed t) delta\<rparr>
                                        else t) prev)])"

definition startTask_v2 :: "jsstring \<Rightarrow> setter list" where
  "startTask_v2 taskId = [setActiveTaskId (Some taskId)]"

definition pauseTask_v2 :: "setter list" where
  "pauseTask_v2 = [setActiveTaskId None]"

definition toggleTask_v2 :: "jsstring option \<Rightarrow> jsstring \<Rightarrow> setter list" where
  "toggleTask_v2 active taskId =
     (if active = Some taskId then pauseTask_v2 else startTask_v2 taskId)"

definition addTask_v2 ::
  "(jsstring \<Rightarrow> jsstring) \<Rightarrow> Task list \<Rightarrow> jsstring \<Rightarrow> bool \<Rightarrow> int \<Rightarrow> jsstring \<Rightarrow>
     setter list" where
  "addTask_v2 toLowerCase ts nm isDevOps_arg now rnd =
     (let trimmed = trim nm in
      if trimmed = [] then []
      else if list_ex (\<lambda>t. toLowerCase (name t) = toLowerCase trimmed) ts then []
      else [setTasks (\<lambda>prev. prev @
              [\<lparr>id_task = generateId now rnd, name = trimmed, elapsed = 0,
                isDevOps = isDevOps_arg\<rparr>])])"

definition removeTask_v2 :: "jsstring option \<Rightarrow> jsstring \<Rightarrow> setter list" where
  "removeTask_v2 active taskId =
     (if active = Some taskId then [setActiveTaskId None] else []) @
     [setTasks (\<lambda>prev. filter (\<lambda>t. id_task t \<noteq> taskId) prev)]"

definition handleAddCustomTask_v2 ::
  "(jsstring \<Rightarrow> jsstring) \<Rightarrow> Task list \<Rightarrow> jsstring \<Rightarrow> int \<Rightarrow> jsstring \<Rightarrow> setter list" where
  "handleAddCustomTask_v2 toLowerCase ts newTaskName now rnd =
     (if trim newTaskName \<noteq> [] then
        let isDevOps_flag = test_work_item (trim newTaskName)
        in addTask_v2 toLowerCase ts
             (if isDevOps_flag then js ''WI #'' @ replace_leading_hash (trim newTaskName)
              else newTaskName)
             isDevOps_flag now rnd
      else [])"

section \<open>Derived data (page.tsx, lines 189 to 190 and 559 to 566)\<close>

text \<open>
  \<open>Math.round\<close> returns the integer closest to its argument, the larger one of two
  equally close.
\<close>

definition Math_round :: "rat \<Rightarrow> int" where
  "Math_round x = \<lfloor>x + 1 / 2\<rfloor>"

text \<open>\<open>const totalTime = tasks.reduce((sum, t) => sum + t.elapsed, 0)\<close>.\<close>

definition totalTime :: "Task list \<Rightarrow> int" where
  "totalTime ts = foldl (\<lambda>sum t. num_add sum (elapsed t)) 0 ts"

text \<open>
  The percentage shown for a task in the Daily Summary:
  \<open>totalTime > 0 ? Math.round((task.elapsed / totalTime) * 100) : 0\<close>.
\<close>

definition pct :: "int \<Rightarrow> int \<Rightarrow> int" where
  "pct tot e =
     (if 0 < tot then Math_round (binary64 (binary64 (of_int e / of_int tot) * 100))
      else 0)"

text \<open>
  The rows of the Daily Summary, each task with its percentage:
  \<open>tasks.filter((t) => t.elapsed > 0).sort((a, b) => b.elapsed - a.elapsed).map(...)\<close>.
  \<open>Array.prototype.sort\<close> is stable; with this comparator it orders by descending
  \<open>elapsed\<close>, which is the stable sort by the key \<open>- elapsed\<close>.
\<close>

definition summary :: "Task list \<Rightarrow> (Task \<times> int) list" where
  "summary ts =
     map (\<lambda>task. (task, pct (totalTime ts) (elapsed task)))
       (sort_key (\<lambda>t. - elapsed t) (filter (\<lambda>t. 0 < elapsed t) ts))"

text \<open>
  Task lists for concrete runs: elapsed times 100, 200, 700; 23, 17; and \<open>2 ^ 53\<close>, 1.
\<close>

definition huge_tasks :: "Task list" where
  "huge_tasks =
     [\<lparr>id_task = js ''a'', name = js ''Meeting'', elapsed = 2 ^ 53, isDevOps = False\<rparr>,
      \<lparr>id_task = js ''b'', name = js ''Admin'', elapsed = 1, isDevOps = False\<rparr>]"

definition example_tasks :: "Task list" where
  "example_tasks =
     [\<lparr>id_task = js ''a'', name = js ''Meeting'', elapsed = 100, isDevOps = False\<rparr>,
      \<lparr>id_task = js ''b'', name = js ''Admin'', elapsed = 200, isDevOps = False\<rparr>,
      \<lparr>id_task = js ''c'', name = js ''Email'', elapsed = 700, isDevOps = False\<rparr>]"

definition tie_tasks :: "Task list" where
  "tie_tasks =
     [\<lparr>id_task = js ''a'', name = js ''Meeting'', elapsed = 23, isDevOps = False\<rparr>,
      \<lparr>id_task = js ''b'', name = js ''Admin'', elapsed = 17, isDevOps = False\<rparr>]"

text \<open>
  States for concrete runs: two stored tasks with the same id, that id active; and a task
  with \<open>2 ^ 53\<close> milliseconds running.
\<close>

definition twin_state :: engine where
  "twin_state =
     \<lparr>tasks = [\<lparr>id_task = js ''a'', name = js ''Meeting'', elapsed = 0, isDevOps = False\<rparr>,
               \<lparr>id_task = js ''a'', name = js ''Admin'', elapsed = 0, isDevOps = False\<rparr>],
      activeTaskId = Some (js ''a''), activeStartRef = Some 0\<rparr>"

definition big_state :: engine where
  "big_state =
     \<lparr>tasks = [\<lparr>id_task = js ''a'', name = js ''Meeting'', elapsed = 2 ^ 53, isDevOps = False\<rparr>],
      activeTaskId = Some (js ''a''), activeStartRef = Some 0\<rparr>"

section \<open>Rounding to binary64\<close>

lemma round_half_even_error: "\<bar>of_int (round_half_even s) - s\<bar> \<le> 1 / 2"
proof -
  define n where "n = \<lfloor>s\<rfloor>"
  define r where "r = s - of_int n"
  have r0: "0 \<le> r" and r1: "r < 1"
    unfolding r_def n_def by linarith+
  have s: "s = of_int n + r" by (simp add: r_def)
  have "round_half_even s = n \<and> r \<le> 1 / 2 \<or> round_half_even s = n + 1 \<and> 1 / 2 \<le> r"
    unfolding round_half_even_def Let_def n_def [symmetric] r_def [symmetric]
    by auto
  then show ?thesis
    using r0 r1 by (auto simp: s)
qed

lemma exponent_le:
  assumes "0 < x"
  shows "2 powi (exponent x) \<le> x"
proof (cases "1 \<le> x")
  case True
  define n where "n = \<lfloor>x\<rfloor>"
  from True have n1: "1 \<le> n" by (simp add: n_def le_floor_iff)
  then have "0 < n" by simp
  from bitlen_bounds [OF this] have b: "2 ^ nat (bitlen n - 1) \<le> n" by simp
  have "bitlen n - 1 \<ge> 0"
    using n1 by (simp add: bitlen_alt_def)
  then have "(2::rat) powi (bitlen n - 1) = 2 ^ nat (bitlen n - 1)"
    by (simp add: power_int_def)
  also have "\<dots> = of_int (2 ^ nat (bitlen n - 1))" by simp
  also have "\<dots> \<le> of_int n" using b by (simp only: of_int_le_iff)
  also have "\<dots> \<le> x" by (simp add: n_def)
  finally show ?thesis using True by (simp add: exponent_def n_def)
next
  case False
  define c where "c = \<lceil>1 / x\<rceil>"
  define m where "m = c - 1"
  from False assms have "1 < 1 / x" by (simp add: field_simps)
  then have "1 < c" unfolding c_def by (simp add: less_ceiling_iff)
  then have m0: "0 < m" by (simp add: m_def)
  from bitlen_bounds [OF this] have "m < 2 ^ nat (bitlen m)" by simp
  then have cle: "c \<le> 2 ^ nat (bitlen m)" by (simp add: m_def)
  have "1 / x \<le> of_int c" by (simp add: c_def)
  also have "\<dots> \<le> of_int (2 ^ nat (bitlen m))" using cle by (simp only: of_int_le_iff)
  also have "\<dots> = 2 ^ nat (bitlen m)" by simp
  finally have "1 / x \<le> 2 ^ nat (bitlen m)" .
  with assms have "1 / 2 ^ nat (bitlen m) \<le> x"
    by (simp add: field_simps)
  moreover have "(2::rat) powi (- bitlen m) = 1 / 2 ^ nat (bitlen m)"
    using bitlen_nonneg [of m] by (simp add: power_int_def field_simps)
  ultimately show ?thesis using False by (simp add: exponent_def c_def m_def)
qed

lemma exponent_upper:
  assumes "0 < x"
  shows "x < 2 powi (exponent x + 1)"
proof (cases "1 \<le> x")
  case True
  define n where "n = \<lfloor>x\<rfloor>"
  from True have n1: "1 \<le> n" by (simp add: n_def le_floor_iff)
  then have "0 < n" by simp
  from bitlen_bounds [OF this] have "n < 2 ^ nat (bitlen n)" by simp
  then have "n + 1 \<le> 2 ^ nat (bitlen n)" by simp
  then have "rat_of_int (n + 1) \<le> rat_of_int (2 ^ nat (bitlen n))" by (simp only: of_int_le_iff)
  moreover have "x < rat_of_int (n + 1)" unfolding n_def by linarith
  ultimately have "x < 2 ^ nat (bitlen n)" by simp
  moreover have "(2::rat) powi (bitlen n) = 2 ^ nat (bitlen n)"
    using bitlen_nonneg [of n] by (simp add: power_int_def)
  ultimately show ?thesis using True by (simp add: exponent_def n_def)
next
  case False
  define c where "c = \<lceil>1 / x\<rceil>"
  define m where "m = c - 1"
  from False assms have "1 < 1 / x" by (simp add: field_simps)
  then have "1 < c" unfolding c_def by (simp add: less_ceiling_iff)
  then have m0: "0 < m" by (simp add: m_def)
  then have b1: "1 \<le> bitlen m" by (simp add: bitlen_alt_def)
  from bitlen_bounds [OF m0] have "2 ^ nat (bitlen m - 1) \<le> m" by simp
  then have "rat_of_int (2 ^ nat (bitlen m - 1)) \<le> rat_of_int m" by (simp only: of_int_le_iff)
  moreover have "rat_of_int m < 1 / x" unfolding m_def c_def by linarith
  ultimately have "rat_of_int (2 ^ nat (bitlen m - 1)) < 1 / x" by (rule le_less_trans)
  then have "2 ^ nat (bitlen m - 1) < 1 / x" by simp
  with assms have "x < 1 / 2 ^ nat (bitlen m - 1)"
    by (simp add: field_simps)
  moreover have "(2::rat) powi (- bitlen m + 1) = 1 / 2 ^ nat (bitlen m - 1)"
  proof -
    have "- bitlen m + 1 = - (bitlen m - 1)" by simp
    then have "(2::rat) powi (- bitlen m + 1) = inverse (2 powi (bitlen m - 1))"
      by (simp only: power_int_minus)
    also have "\<dots> = 1 / 2 ^ nat (bitlen m - 1)"
      using b1 by (simp add: power_int_def field_simps)
    finally show ?thesis .
  qed
  ultimately show ?thesis using False by (simp add: exponent_def c_def m_def)
qed

text \<open>The rounding on a known value: the binary64 number nearest to one tenth.\<close>

lemma binary64_one_tenth: "binary64 (1 / 10) = 3602879701896397 / 36028797018963968"
  by code_simp

lemma binary64_error: "\<bar>binary64 y - y\<bar> \<le> \<bar>y\<bar> / 2 ^ 53"
proof (cases "y = 0")
  case True
  then show ?thesis by (simp add: binary64_def)
next
  case False
  define e where "e = exponent \<bar>y\<bar>"
  define u :: rat where "u = 2 powi (e - 52)"
  have u0: "0 < u" by (simp add: u_def)
  have b: "binary64 y = of_int (round_half_even (y / u)) * u"
    using False by (simp add: binary64_def e_def u_def Let_def)
  have "binary64 y - y = (of_int (round_half_even (y / u)) - y / u) * u"
    using u0 by (simp add: b field_simps)
  then have "\<bar>binary64 y - y\<bar> = \<bar>of_int (round_half_even (y / u)) - y / u\<bar> * u"
    using u0 by (simp add: abs_mult)
  also have "\<dots> \<le> (1 / 2) * u"
    using round_half_even_error [of "y / u"] u0 by (intro mult_right_mono) simp_all
  also have "\<dots> = 2 powi e / 2 ^ 53"
    by (simp add: u_def power_int_diff)
  also have "\<dots> \<le> \<bar>y\<bar> / 2 ^ 53"
    using exponent_le [of "\<bar>y\<bar>"] False by (simp add: e_def divide_right_mono)
  finally show ?thesis .
qed

lemma product_error:
  "\<bar>binary64 (binary64 q * 100) - q * 100\<bar> \<le> \<bar>q * 100\<bar> / 2 ^ 51"
proof -
  define a where "a = binary64 q"
  have 1: "\<bar>a - q\<bar> \<le> \<bar>q\<bar> / 2 ^ 53" unfolding a_def by (rule binary64_error)
  have 2: "\<bar>binary64 (a * 100) - a * 100\<bar> \<le> \<bar>a * 100\<bar> / 2 ^ 53" by (rule binary64_error)
  have "\<bar>q\<bar> / 2 ^ 53 \<le> \<bar>q\<bar>" by (simp add: field_simps)
  with 1 have "\<bar>a - q\<bar> \<le> \<bar>q\<bar>" by (rule order_trans)
  then have 3: "\<bar>a\<bar> \<le> 2 * \<bar>q\<bar>" by linarith
  have "binary64 (a * 100) - q * 100 = (binary64 (a * 100) - a * 100) + (a - q) * 100"
    by (simp add: algebra_simps)
  then have "\<bar>binary64 (a * 100) - q * 100\<bar> \<le> \<bar>binary64 (a * 100) - a * 100\<bar> + \<bar>(a - q) * 100\<bar>"
    by (simp only: abs_triangle_ineq)
  also have "\<dots> = \<bar>binary64 (a * 100) - a * 100\<bar> + \<bar>a - q\<bar> * 100"
    by (simp only: abs_mult abs_numeral)
  also have "\<dots> \<le> \<bar>a\<bar> * 100 / 2 ^ 53 + \<bar>q\<bar> * 100 / 2 ^ 53"
    using 1 2 by (simp add: abs_mult)
  also have "\<dots> \<le> 2 * \<bar>q\<bar> * 100 / 2 ^ 53 + \<bar>q\<bar> * 100 / 2 ^ 53"
    using 3 by simp
  also have "\<dots> \<le> \<bar>q * 100\<bar> / 2 ^ 51"
    by (simp add: abs_mult)
  finally show ?thesis by (simp add: a_def)
qed

lemma round_half_even_of_int: "round_half_even (rat_of_int m) = m"
  by (simp add: round_half_even_def)

lemma exponent_nonneg:
  assumes "1 \<le> x"
  shows "0 \<le> exponent x"
proof -
  from assms have "1 \<le> \<lfloor>x\<rfloor>" by (simp add: le_floor_iff)
  then have "1 \<le> bitlen \<lfloor>x\<rfloor>" by (simp add: bitlen_alt_def)
  with assms show ?thesis by (simp add: exponent_def)
qed

lemma num_exact_less:
  assumes "\<bar>n\<bar> < 2 ^ 53"
  shows "num n = n"
proof (cases "n = 0")
  case True
  then show ?thesis by (simp add: num_def binary64_def)
next
  case False
  define x where "x = rat_of_int n"
  define e where "e = exponent \<bar>x\<bar>"
  have x1: "1 \<le> \<bar>x\<bar>"
  proof -
    from False have "1 \<le> \<bar>n\<bar>" by simp
    then have "rat_of_int 1 \<le> rat_of_int \<bar>n\<bar>" by (simp only: of_int_le_iff)
    then show ?thesis by (simp add: x_def)
  qed
  have e0: "0 \<le> e" unfolding e_def using x1 by (rule exponent_nonneg)
  have "rat_of_int \<bar>n\<bar> < rat_of_int (2 ^ 53)" using assms by (simp only: of_int_less_iff)
  then have xb: "\<bar>x\<bar> < 2 ^ 53" by (simp add: x_def)
  have "(2::rat) powi e \<le> \<bar>x\<bar>"
    unfolding e_def using x1 by (intro exponent_le) simp
  with xb have "(2::rat) powi e < 2 ^ 53" by simp
  with e0 have "(2::rat) ^ nat e < 2 ^ 53" by (simp add: power_int_def)
  then have "nat e < 53" by (simp only: power_strict_increasing_iff one_less_numeral_iff semiring_norm)
  with e0 have e52: "e \<le> 52" by simp
  define k where "k = nat (52 - e)"
  have ulp: "(2::rat) powi (e - 52) = 1 / 2 ^ k"
  proof -
    have "e - 52 = - int k" using e52 by (simp add: k_def)
    then have "(2::rat) powi (e - 52) = 2 powi (- int k)" by simp
    also have "\<dots> = inverse (2 powi int k)" by (rule power_int_minus)
    also have "\<dots> = 1 / 2 ^ k" by (simp add: field_simps)
    finally show ?thesis .
  qed
  have q: "x / (2 powi (e - 52)) = rat_of_int (n * 2 ^ k)"
    by (simp add: ulp x_def)
  have rq: "round_half_even (x / (2 powi (e - 52))) = n * 2 ^ k"
    by (simp only: q round_half_even_of_int)
  have "x \<noteq> 0" using False by (simp add: x_def)
  then have "binary64 x =
      rat_of_int (round_half_even (x / (2 powi (e - 52)))) * 2 powi (e - 52)"
    by (simp add: binary64_def Let_def e_def)
  also have "\<dots> = rat_of_int (n * 2 ^ k) * 2 powi (e - 52)"
    by (simp only: rq)
  also have "\<dots> = rat_of_int (n * 2 ^ k) * (1 / 2 ^ k)"
    by (simp only: ulp)
  also have "\<dots> = rat_of_int n" by simp
  finally show ?thesis by (simp add: num_def x_def)
qed

lemma num_exact:
  assumes "\<bar>n\<bar> \<le> 2 ^ 53"
  shows "num n = n"
proof (cases "\<bar>n\<bar> < 2 ^ 53")
  case True
  then show ?thesis by (rule num_exact_less)
next
  case False
  with assms have "n = 2 ^ 53 \<or> n = - (2 ^ 53)" by auto
  moreover have "num (2 ^ 53) = 2 ^ 53" by code_simp
  moreover have "num (- (2 ^ 53)) = - (2 ^ 53)" by code_simp
  ultimately show ?thesis by auto
qed

lemma num_add_exact: "\<bar>a + b\<bar> \<le> 2 ^ 53 \<Longrightarrow> num_add a b = a + b"
  by (simp add: num_add_def num_exact)

lemma num_sub_exact: "\<bar>a - b\<bar> \<le> 2 ^ 53 \<Longrightarrow> num_sub a b = a - b"
  by (simp add: num_sub_def num_exact)

lemma num_sub_self: "num_sub a a = 0"
  by (simp add: num_sub_def num_def binary64_def)

section \<open>Basic facts\<close>

lemma activeTaskId_timer_effect: "activeTaskId (timer_effect s now) = activeTaskId s"
  by (simp add: timer_effect_def)

lemma tasks_timer_effect: "tasks (timer_effect s now) = tasks s"
  by (simp add: timer_effect_def)

lemma activeTaskId_rerender: "activeTaskId (rerender old s now) = activeTaskId s"
  by (simp add: rerender_def activeTaskId_timer_effect)

lemma tasks_rerender: "tasks (rerender old s now) = tasks s"
  by (simp add: rerender_def tasks_timer_effect)

lemma activeTaskId_interval_tick: "activeTaskId (interval_tick s now) = activeTaskId s"
  by (simp add: interval_tick_def dispatch_def Let_def)

lemma tasks_interval_tick:
  "tasks (interval_tick s now) =
     (if falsy (activeTaskId s) then tasks s
      else map (credit (activeTaskId s)
                  (num_sub now (case activeStartRef s of None \<Rightarrow> now | Some t0 \<Rightarrow> t0))) (tasks s))"
  by (simp add: interval_tick_def dispatch_def Let_def)

lemma card_active_ids: "card (active_ids s) \<le> 1"
proof (cases "activeTaskId s")
  case None
  then show ?thesis by (simp add: active_ids_def)
next
  case (Some a)
  then have "active_ids s = {a}" by (auto simp: active_ids_def)
  then show ?thesis by simp
qed

lemma credited_distinct_le1:
  assumes "distinct (map id_task ts)"
  shows "length (filter (\<lambda>(t, t'). t \<noteq> t') (zip ts (map (credit a d) ts))) \<le> 1"
proof (cases a)
  case None
  then have "filter (\<lambda>(t, t'). t \<noteq> t') (zip ts (map (credit a d) ts)) = []"
    by (induction ts) (auto simp: credit_def)
  then show ?thesis by simp
next
  case (Some x)
  have not_in: "x \<notin> id_task ` set us \<Longrightarrow>
      filter (\<lambda>(t, t'). t \<noteq> t') (zip us (map (credit (Some x) d) us)) = []" for us
    by (induction us) (auto simp: credit_def)
  from assms show ?thesis unfolding Some
  proof (induction ts)
    case Nil
    then show ?case by simp
  next
    case (Cons t ts)
    show ?case
    proof (cases "id_task t = x")
      case True
      with Cons.prems have "x \<notin> id_task ` set ts" by auto
      then show ?thesis using not_in [of ts] by simp
    next
      case False
      then have "credit (Some x) d t = t" by (simp add: credit_def)
      with Cons show ?thesis by simp
    qed
  qed
qed

lemma credited_ids:
  "t \<in> set (map fst (filter (\<lambda>(t, t'). t \<noteq> t') (zip ts (map (credit a d) ts))))
     \<Longrightarrow> Some (id_task t) = a"
  by (induction ts) (auto simp: credit_def split: if_splits)

section \<open>Exclusive timer\<close>

lemma trace_startTask: "trace s (startTask x) = [s\<lparr>activeTaskId := Some x\<rparr>]"
  by (simp add: startTask_def)

lemma dispatch_startTask: "dispatch s (startTask x) = s\<lparr>activeTaskId := Some x\<rparr>"
  by (simp add: startTask_def dispatch_def)

lemma credited_interval_tick:
  "credited s (interval_tick s now) =
     (if falsy (activeTaskId s) then []
      else map fst (filter (\<lambda>(t, t'). t \<noteq> t')
             (zip (tasks s) (map (credit (activeTaskId s)
                (num_sub now (case activeStartRef s of None \<Rightarrow> now | Some t0 \<Rightarrow> t0))) (tasks s)))))"
proof -
  have "filter (\<lambda>(t, t'). t \<noteq> t') (zip ts ts) = []" for ts :: "Task list"
    by (induction ts) auto
  then show ?thesis
    by (simp add: credited_def tasks_interval_tick)
qed

lemma credited_interval_tick_le1:
  assumes "distinct (map id_task (tasks s))"
  shows "length (credited s (interval_tick s now)) \<le> 1"
  using credited_distinct_le1 [OF assms] by (simp add: credited_interval_tick)

lemma credited_interval_tick_active:
  assumes "t \<in> set (credited s (interval_tick s now))"
  shows "Some (id_task t) = activeTaskId s"
  using assms credited_ids by (auto simp: credited_interval_tick split: if_splits)

lemma step_PauseTask: "activeTaskId (step lc s (now, PauseTask)) = None"
  by (simp add: step_def activeTaskId_rerender dispatch_def pauseTask_def)

lemma step_ToggleTask:
  "activeTaskId (step lc s (now, ToggleTask x)) =
     (if activeTaskId s = Some x then None else Some x)"
  by (simp add: step_def activeTaskId_rerender dispatch_def toggleTask_def pauseTask_def
      startTask_def)

text \<open>
  C1 as stated fails in its last part: from a state whose task list holds the same id
  twice, as a storage can, one tick credits both tasks.
\<close>

theorem exclusivity_twin_counterexample:
  "activeTaskId twin_state = Some (js ''a'') \<and>
   map elapsed (tasks twin_state) = [0, 0] \<and>
   map elapsed (tasks (interval_tick twin_state 1000)) = [1000, 1000] \<and>
   length (credited twin_state (interval_tick twin_state 1000)) = 2"
  by (simp add: twin_state_def interval_tick_def falsy_def dispatch_def credit_def credited_def
      num_sub_exact num_add_exact js_def)

text \<open>
  C1, amended. Whatever events have happened, from any state: at most one id is active,
  also in every state that the setter calls of a start, pause or toggle pass through;
  \<open>startTask x\<close> is one setter call, so the only state it passes through has \<open>x\<close> active
  and none is idle, and after it \<open>x\<close> is the active id; after a pause no id is active and
  after \<open>toggleTask x\<close> the active id is \<open>x\<close>, or none when \<open>x\<close> was active; a tick changes
  only tasks whose id is the active id, hence at most one task when the ids of the tasks
  are distinct.
\<close>

theorem exclusivity:
  "card (active_ids (run lc s evs)) \<le> 1 \<and>
   (\<forall>s' \<in> set (trace (run lc s evs) (startTask x) @ trace (run lc s evs) pauseTask @
                trace (run lc s evs) (toggleTask (activeTaskId (run lc s evs)) x)).
        card (active_ids s') \<le> 1) \<and>
   length (trace (run lc s evs) (startTask x)) = 1 \<and>
   (\<forall>s' \<in> set (trace (run lc s evs) (startTask x)). activeTaskId s' = Some x) \<and>
   active_ids (run lc s (evs @ [(now, StartTask x)])) = {x} \<and>
   activeTaskId (run lc s (evs @ [(now, PauseTask)])) = None \<and>
   activeTaskId (run lc s (evs @ [(now, ToggleTask x)])) =
     (if activeTaskId (run lc s evs) = Some x then None else Some x) \<and>
   (\<forall>t \<in> set (credited (run lc s evs) (interval_tick (run lc s evs) now)).
        Some (id_task t) = activeTaskId (run lc s evs)) \<and>
   (distinct (map id_task (tasks (run lc s evs))) \<longrightarrow>
        length (credited (run lc s evs) (interval_tick (run lc s evs) now)) \<le> 1)"
proof -
  have a: "active_ids (run lc s (evs @ [(now, StartTask x)])) = {x}"
    by (auto simp: run_def step_def active_ids_def activeTaskId_rerender dispatch_startTask)
  have b: "\<forall>s' \<in> set (trace (run lc s evs) (startTask x)). activeTaskId s' = Some x"
    by (simp add: trace_startTask)
  have c: "length (trace (run lc s evs) (startTask x)) = 1"
    by (simp add: trace_startTask)
  have d: "\<forall>t \<in> set (credited (run lc s evs) (interval_tick (run lc s evs) now)).
        Some (id_task t) = activeTaskId (run lc s evs)"
    using credited_interval_tick_active by blast
  have e: "distinct (map id_task (tasks (run lc s evs))) \<longrightarrow>
        length (credited (run lc s evs) (interval_tick (run lc s evs) now)) \<le> 1"
    using credited_interval_tick_le1 by blast
  have f: "\<forall>s' \<in> set (trace (run lc s evs) (startTask x) @ trace (run lc s evs) pauseTask @
                trace (run lc s evs) (toggleTask (activeTaskId (run lc s evs)) x)).
        card (active_ids s') \<le> 1"
    by (intro ballI) (rule card_active_ids)
  have p: "activeTaskId (run lc s (evs @ [(now, PauseTask)])) = None"
    by (simp add: run_def step_PauseTask)
  have t: "activeTaskId (run lc s (evs @ [(now, ToggleTask x)])) =
     (if activeTaskId (run lc s evs) = Some x then None else Some x)"
    by (simp only: run_def foldl_append foldl.simps step_ToggleTask)
  from a b c d e f p t card_active_ids [of "run lc s evs"] show ?thesis
    by (intro conjI)
qed

lemma run_abc:
  "run lc abc_state [(0, StartTask (js ''a'')), (10, StartTask (js ''b''))] =
     abc_state\<lparr>activeTaskId := Some (js ''b''), activeStartRef := Some 10\<rparr>"
  by (simp add: run_def step_def rerender_def dispatch_def startTask_def timer_effect_def
      falsy_def abc_state_def js_def)

text \<open>C1 on a run that starts a, then b, then c.\<close>

theorem exclusivity_witness:
  "distinct (map id_task (tasks (run ascii_toLowerCase abc_state
       [(0, StartTask (js ''a'')), (10, StartTask (js ''b''))]))) \<and>
   active_ids (run ascii_toLowerCase abc_state
       ([(0, StartTask (js ''a'')), (10, StartTask (js ''b''))] @ [(20, StartTask (js ''c''))]))
     = {js ''c''} \<and>
   length (credited (run ascii_toLowerCase abc_state
             [(0, StartTask (js ''a'')), (10, StartTask (js ''b''))])
          (interval_tick (run ascii_toLowerCase abc_state
             [(0, StartTask (js ''a'')), (10, StartTask (js ''b''))]) 20)) \<le> 1"
proof -
  have d: "distinct (map id_task (tasks (run ascii_toLowerCase abc_state
       [(0, StartTask (js ''a'')), (10, StartTask (js ''b''))])))"
    by (simp add: run_abc) (simp add: abc_state_def js_def)
  note ex = exclusivity [of ascii_toLowerCase abc_state
        "[(0, StartTask (js ''a'')), (10, StartTask (js ''b''))]" "js ''c''" 20]
  from ex have e: "active_ids (run ascii_toLowerCase abc_state
       ([(0, StartTask (js ''a'')), (10, StartTask (js ''b''))] @ [(20, StartTask (js ''c''))]))
     = {js ''c''}"
    by (elim conjE)
  from ex d have g: "length (credited (run ascii_toLowerCase abc_state
             [(0, StartTask (js ''a'')), (10, StartTask (js ''b''))])
          (interval_tick (run ascii_toLowerCase abc_state
             [(0, StartTask (js ''a'')), (10, StartTask (js ''b''))]) 20)) \<le> 1"
    by (elim conjE impE)
  from d e g show ?thesis by (intro conjI)
qed

section \<open>Starting a task\<close>

text \<open>
  C4 as stated fails: with no tasks at all, \<open>startTask\<close> of an id that names no task
  changes the state.
\<close>

theorem startTask_unknown_id_counterexample:
  "dispatch \<lparr>tasks = [], activeTaskId = None, activeStartRef = None\<rparr> (startTask (js ''ghost''))
     \<noteq> \<lparr>tasks = [], activeTaskId = None, activeStartRef = None\<rparr>"
  by (simp add: dispatch_startTask)

text \<open>
  C4, amended. \<open>startTask\<close> sets \<open>activeTaskId\<close> to the id it is given, whether a task has
  that id or not, and changes nothing else. When no task has the id, the derived
  \<open>activeTask\<close> is \<open>null\<close> and a tick leaves every task as it is.
\<close>

theorem startTask_unconditional:
  "dispatch s (startTask i) = s\<lparr>activeTaskId := Some i\<rparr> \<and>
   (i \<notin> id_task ` set (tasks s) \<longrightarrow>
      activeTask (dispatch s (startTask i)) = None \<and>
      tasks (interval_tick (dispatch s (startTask i)) now) = tasks s)"
proof -
  have "map (credit (Some i) d) ts = ts" if "i \<notin> id_task ` set ts" for d and ts :: "Task list"
    using that by (induction ts) (auto simp: credit_def)
  moreover have "find (\<lambda>t. Some (id_task t) = Some i) ts = None"
    if "i \<notin> id_task ` set ts" for ts :: "Task list"
    using that by (induction ts) auto
  ultimately show ?thesis
    by (simp add: dispatch_startTask activeTask_def tasks_interval_tick)
qed

text \<open>C4, amended, at an id that no task of the three has.\<close>

theorem startTask_unconditional_witness:
  "js ''ghost'' \<notin> id_task ` set (tasks abc_state) \<and>
   activeTaskId (dispatch abc_state (startTask (js ''ghost''))) = Some (js ''ghost'') \<and>
   activeTask (dispatch abc_state (startTask (js ''ghost''))) = None \<and>
   tasks (interval_tick (dispatch abc_state (startTask (js ''ghost''))) 1000) = tasks abc_state"
proof -
  have h: "js ''ghost'' \<notin> id_task ` set (tasks abc_state)"
    by (simp add: abc_state_def js_def)
  note st = startTask_unconditional [of abc_state "js ''ghost''" 1000]
  from st have a: "activeTaskId (dispatch abc_state (startTask (js ''ghost''))) = Some (js ''ghost'')"
    by simp
  have b: "activeTask (dispatch abc_state (startTask (js ''ghost''))) = None \<and>
   tasks (interval_tick (dispatch abc_state (startTask (js ''ghost''))) 1000) = tasks abc_state"
    by (rule st [THEN conjunct2, THEN mp, OF h])
  from h a b [THEN conjunct1] b [THEN conjunct2] show ?thesis by (intro conjI)
qed

section \<open>Tick accumulation\<close>

lemma interval_tick_running:
  assumes "activeTaskId s = Some x" "x \<noteq> []" "activeStartRef s = Some t0"
  shows "interval_tick s now =
           s\<lparr>activeStartRef := Some now,
             tasks := map (credit (Some x) (num_sub now t0)) (tasks s)\<rparr>"
  using assms by (simp add: interval_tick_def falsy_def dispatch_def)

lemma sorted_first_le_last: "sorted_wrt (<) (n # nows) \<Longrightarrow> n \<le> last (n # nows)"
  for n :: int
  by (cases nows) (auto simp: less_imp_le)

lemma last_take_Cons: "k \<le> length nows \<Longrightarrow> last (t0 # take k nows) = (t0 # nows) ! k"
proof (induction nows arbitrary: k t0)
  case Nil
  then show ?case by simp
next
  case (Cons n nows)
  show ?case
  proof (cases k)
    case 0
    then show ?thesis by simp
  next
    case (Suc j)
    with Cons.prems have "j \<le> length nows" by simp
    from Cons.IH [OF this, of n] Suc show ?thesis by simp
  qed
qed

lemma ticks_running:
  assumes "activeTaskId s = Some x" and "x \<noteq> []" and "activeStartRef s = Some t0"
    and "sorted_wrt (<) (t0 # nows)"
    and "\<forall>t \<in> set (tasks s). id_task t = x \<longrightarrow>
           0 \<le> elapsed t \<and> elapsed t + (last (t0 # nows) - t0) \<le> 2 ^ 53"
  shows "ticks s nows =
           s\<lparr>activeStartRef := Some (last (t0 # nows)),
             tasks := map (\<lambda>t. if id_task t = x
                                 then t\<lparr>elapsed := elapsed t + (last (t0 # nows) - t0)\<rparr> else t)
                        (tasks s)\<rparr>"
  using assms
proof (induction nows arbitrary: s t0)
  case Nil
  have m: "map (\<lambda>t. if id_task t = x then t\<lparr>elapsed := elapsed t + (last [t0] - t0)\<rparr> else t) ts
      = ts" for ts :: "Task list"
    by (induction ts) simp_all
  show ?case unfolding ticks_def foldl.simps m using Nil.prems(3) by simp
next
  case (Cons n nows)
  let ?L = "last (n # nows)"
  let ?s1 = "interval_tick s n"
  from Cons.prems(4) have tn: "t0 < n" and srt: "sorted_wrt (<) (n # nows)" by simp_all
  from srt have nL: "n \<le> ?L" by (rule sorted_first_le_last)
  have bnd: "0 \<le> elapsed t \<and> elapsed t + (?L - t0) \<le> 2 ^ 53"
    if "t \<in> set (tasks s)" "id_task t = x" for t
    using Cons.prems(5) that by simp
  have cr: "credit (Some x) (num_sub n t0) t =
      (if id_task t = x then t\<lparr>elapsed := elapsed t + (n - t0)\<rparr> else t)"
    if t: "t \<in> set (tasks s)" for t
  proof (cases "id_task t = x")
    case False
    then show ?thesis by (auto simp: credit_def)
  next
    case True
    from bnd [OF t True] tn nL have d: "\<bar>n - t0\<bar> \<le> 2 ^ 53" and e: "\<bar>elapsed t + (n - t0)\<bar> \<le> 2 ^ 53"
      by linarith+
    from d have "num_sub n t0 = n - t0" by (rule num_sub_exact)
    moreover from e have "num_add (elapsed t) (n - t0) = elapsed t + (n - t0)"
      by (rule num_add_exact)
    ultimately show ?thesis using True by (simp add: credit_def)
  qed
  have s1: "?s1 = s\<lparr>activeStartRef := Some n,
      tasks := map (\<lambda>t. if id_task t = x then t\<lparr>elapsed := elapsed t + (n - t0)\<rparr> else t)
                 (tasks s)\<rparr>"
    using cr by (simp add: interval_tick_running [OF Cons.prems(1-3)] cong: map_cong)
  have b1: "\<forall>t \<in> set (tasks ?s1). id_task t = x \<longrightarrow>
      0 \<le> elapsed t \<and> elapsed t + (?L - n) \<le> 2 ^ 53"
  proof (intro ballI impI)
    fix u assume u: "u \<in> set (tasks ?s1)" and ux: "id_task u = x"
    from u obtain t where t: "t \<in> set (tasks s)"
      and ut: "u = (if id_task t = x then t\<lparr>elapsed := elapsed t + (n - t0)\<rparr> else t)"
      by (auto simp: s1)
    from ux ut have tx: "id_task t = x" by (auto split: if_splits)
    with ut have "elapsed u = elapsed t + (n - t0)" by simp
    with bnd [OF t tx] tn show "0 \<le> elapsed u \<and> elapsed u + (?L - n) \<le> 2 ^ 53"
      by simp
  qed
  have "ticks s (n # nows) = ticks ?s1 nows"
    by (simp add: ticks_def)
  also have "\<dots> = ?s1\<lparr>activeStartRef := Some ?L,
             tasks := map (\<lambda>t. if id_task t = x then t\<lparr>elapsed := elapsed t + (?L - n)\<rparr> else t)
                        (tasks ?s1)\<rparr>"
    using srt b1 by (intro Cons.IH) (simp_all add: s1 Cons.prems)
  also have "\<dots> = s\<lparr>activeStartRef := Some (last (t0 # n # nows)),
             tasks := map (\<lambda>t. if id_task t = x
                 then t\<lparr>elapsed := elapsed t + (last (t0 # n # nows) - t0)\<rparr> else t) (tasks s)\<rparr>"
    by (simp add: s1 comp_def if_distrib cong: if_cong)
  finally show ?case .
qed

lemma ticks_prefix:
  assumes a: "activeTaskId s = Some x" and ne: "x \<noteq> []" and r: "activeStartRef s = Some t0"
    and srt: "sorted_wrt (<) (t0 # nows)"
    and bnd: "\<forall>t \<in> set (tasks s). id_task t = x \<longrightarrow>
           0 \<le> elapsed t \<and> elapsed t + (last (t0 # nows) - t0) \<le> 2 ^ 53"
    and k: "k \<le> length nows"
  shows "ticks s (take k nows) =
           s\<lparr>activeStartRef := Some ((t0 # nows) ! k),
             tasks := map (\<lambda>t. if id_task t = x
                                 then t\<lparr>elapsed := elapsed t + ((t0 # nows) ! k - t0)\<rparr> else t)
                        (tasks s)\<rparr>"
proof -
  have lk: "last (t0 # take k nows) = (t0 # nows) ! k"
    using k by (rule last_take_Cons)
  have "sorted_wrt (<) (take (Suc k) (t0 # nows))"
    using srt by (rule sorted_wrt_take)
  then have srt': "sorted_wrt (<) (t0 # take k nows)" by simp
  have ln: "last (t0 # nows) = (t0 # nows) ! length nows"
    using last_take_Cons [of "length nows" nows t0] by simp
  have le: "(t0 # nows) ! k \<le> last (t0 # nows)"
  proof (cases "k = length nows")
    case True
    then show ?thesis by (simp only: ln)
  next
    case False
    with k have "k < length nows" by simp
    then have "(t0 # nows) ! k < (t0 # nows) ! length nows"
      using sorted_wrt_nth_less [OF srt, of k "length nows"] by simp
    then show ?thesis by (simp only: ln)
  qed
  have bnd': "\<forall>t \<in> set (tasks s). id_task t = x \<longrightarrow>
           0 \<le> elapsed t \<and> elapsed t + (last (t0 # take k nows) - t0) \<le> 2 ^ 53"
    unfolding lk using bnd le by fastforce
  show ?thesis
    using ticks_running [OF a ne r srt' bnd'] unfolding lk .
qed

lemma num_add_2_53_1: "num_add 9007199254740992 1 = 9007199254740992"
  by code_simp

text \<open>
  C2 as stated fails where a sum leaves the integers that binary64 holds exactly: a task
  with \<open>2 ^ 53\<close> milliseconds keeps \<open>2 ^ 53\<close> after a tick one millisecond after the last
  reading. It also fails when the active id is the empty string: the effect starts no
  interval, and nothing accrues.
\<close>

theorem tick_rounding_counterexample:
  "activeTaskId big_state = Some (js ''a'') \<and>
   activeStartRef big_state = Some 0 \<and>
   map elapsed (tasks big_state) = [2 ^ 53] \<and>
   map elapsed (tasks (interval_tick big_state 1)) = [2 ^ 53] \<and>
   timer_effect (big_state\<lparr>activeTaskId := Some []\<rparr>) 0 =
     big_state\<lparr>activeTaskId := Some [], activeStartRef := None\<rparr> \<and>
   interval_tick (big_state\<lparr>activeTaskId := Some [], activeStartRef := None\<rparr>) 1 =
     big_state\<lparr>activeTaskId := Some [], activeStartRef := None\<rparr>"
  by (simp add: big_state_def interval_tick_def timer_effect_def falsy_def dispatch_def
      credit_def num_sub_exact num_add_2_53_1 js_def)

text \<open>
  C2, amended. In a state where a non-empty \<open>x\<close> is the active id and the last clock
  reading is \<open>now0\<close>, for strictly increasing readings \<open>nows\<close> after \<open>now0\<close>, when the
  tasks with id \<open>x\<close> have a non-negative elapsed time that stays at most \<open>2 ^ 53\<close> with the
  last reading minus \<open>now0\<close> added: after each tick the last reading is that tick's reading;
  each tick adds exactly its reading minus the reading before to the elapsed time of the
  tasks with id \<open>x\<close>; no tick decreases an elapsed time; and after all ticks the elapsed time
  of the tasks with id \<open>x\<close> has grown by exactly the last reading minus \<open>now0\<close>, every
  other task being as before.
\<close>

theorem tick_accumulation:
  assumes a: "activeTaskId s = Some x" and ne: "x \<noteq> []" and r: "activeStartRef s = Some now0"
    and srt: "sorted_wrt (<) (now0 # nows)"
    and bnd: "\<forall>t \<in> set (tasks s). id_task t = x \<longrightarrow>
           0 \<le> elapsed t \<and> elapsed t + (last (now0 # nows) - now0) \<le> 2 ^ 53"
  shows
   "activeTaskId (ticks s nows) = Some x \<and>
    length (tasks (ticks s nows)) = length (tasks s) \<and>
    (\<forall>k \<le> length nows. activeStartRef (ticks s (take k nows)) = Some ((now0 # nows) ! k)) \<and>
    (\<forall>k < length nows. \<forall>n < length (tasks s).
       elapsed (tasks (ticks s (take (Suc k) nows)) ! n) =
         (if id_task (tasks s ! n) = x
          then elapsed (tasks (ticks s (take k nows)) ! n) + (nows ! k - (now0 # nows) ! k)
          else elapsed (tasks (ticks s (take k nows)) ! n))) \<and>
    (\<forall>k < length nows. \<forall>n < length (tasks s).
       elapsed (tasks (ticks s (take k nows)) ! n)
         \<le> elapsed (tasks (ticks s (take (Suc k) nows)) ! n)) \<and>
    (\<forall>n < length (tasks s).
       elapsed (tasks (ticks s nows) ! n) =
         (if id_task (tasks s ! n) = x then elapsed (tasks s ! n) + (last (now0 # nows) - now0)
          else elapsed (tasks s ! n)))"
proof -
  note pre = ticks_prefix [OF a ne r srt bnd]
  note all = ticks_running [OF a ne r srt bnd]
  have c1: "activeTaskId (ticks s nows) = Some x"
    by (simp add: all a)
  have c2: "length (tasks (ticks s nows)) = length (tasks s)"
    by (simp add: all)
  have c3: "\<forall>k \<le> length nows. activeStartRef (ticks s (take k nows)) = Some ((now0 # nows) ! k)"
    by (simp add: pre)
  have step: "(now0 # nows) ! k < nows ! k" if "k < length nows" for k
    using sorted_wrt_nth_less [OF srt, of k "Suc k"] that by simp
  have c4: "\<forall>k < length nows. \<forall>n < length (tasks s).
       elapsed (tasks (ticks s (take (Suc k) nows)) ! n) =
         (if id_task (tasks s ! n) = x
          then elapsed (tasks (ticks s (take k nows)) ! n) + (nows ! k - (now0 # nows) ! k)
          else elapsed (tasks (ticks s (take k nows)) ! n))"
  proof (intro allI impI)
    fix k n assume k: "k < length nows" and n: "n < length (tasks s)"
    from k have k1: "k \<le> length nows" and k2: "Suc k \<le> length nows" by simp_all
    show "elapsed (tasks (ticks s (take (Suc k) nows)) ! n) =
         (if id_task (tasks s ! n) = x
          then elapsed (tasks (ticks s (take k nows)) ! n) + (nows ! k - (now0 # nows) ! k)
          else elapsed (tasks (ticks s (take k nows)) ! n))"
      using n by (simp add: pre [OF k1] pre [OF k2] del: take_Suc_Cons)
  qed
  have c5: "\<forall>k < length nows. \<forall>n < length (tasks s).
       elapsed (tasks (ticks s (take k nows)) ! n)
         \<le> elapsed (tasks (ticks s (take (Suc k) nows)) ! n)"
  proof (intro allI impI)
    fix k n assume k: "k < length nows" and n: "n < length (tasks s)"
    from c4 k n have "elapsed (tasks (ticks s (take (Suc k) nows)) ! n) =
         (if id_task (tasks s ! n) = x
          then elapsed (tasks (ticks s (take k nows)) ! n) + (nows ! k - (now0 # nows) ! k)
          else elapsed (tasks (ticks s (take k nows)) ! n))"
      by blast
    with step [OF k] show "elapsed (tasks (ticks s (take k nows)) ! n)
         \<le> elapsed (tasks (ticks s (take (Suc k) nows)) ! n)"
      by (simp split: if_splits)
  qed
  have c6: "\<forall>n < length (tasks s).
       elapsed (tasks (ticks s nows) ! n) =
         (if id_task (tasks s ! n) = x then elapsed (tasks s ! n) + (last (now0 # nows) - now0)
          else elapsed (tasks s ! n))"
    by (simp add: all)
  from c1 c2 c3 c4 c5 c6 show ?thesis by (intro conjI)
qed

lemma running_b:
  "step lc abc_state (0, StartTask (js ''b'')) =
     abc_state\<lparr>activeTaskId := Some (js ''b''), activeStartRef := Some 0\<rparr>"
  by (simp add: step_def rerender_def dispatch_def startTask_def timer_effect_def
      falsy_def abc_state_def js_def)

text \<open>C2, amended, on the spec's example: ticks at 1000, 2500 and 3000 after a start at 0.\<close>

theorem tick_accumulation_witness:
  "activeTaskId (step ascii_toLowerCase abc_state (0, StartTask (js ''b''))) = Some (js ''b'') \<and>
   js ''b'' \<noteq> [] \<and>
   activeStartRef (step ascii_toLowerCase abc_state (0, StartTask (js ''b''))) = Some 0 \<and>
   sorted_wrt (<) (0 # [1000, 2500, 3000 :: int]) \<and>
   list_all (\<lambda>t. id_task t = js ''b'' \<longrightarrow>
               0 \<le> elapsed t \<and> elapsed t + (last (0 # [1000, 2500, 3000]) - 0) \<le> 2 ^ 53)
     (tasks (step ascii_toLowerCase abc_state (0, StartTask (js ''b'')))) \<and>
   elapsed (tasks (ticks (step ascii_toLowerCase abc_state (0, StartTask (js ''b'')))
                        [1000, 2500, 3000]) ! 1) = 3000 \<and>
   elapsed (tasks (ticks (step ascii_toLowerCase abc_state (0, StartTask (js ''b'')))
                        [1000, 2500, 3000]) ! 2) = 0 \<and>
   activeStartRef (ticks (step ascii_toLowerCase abc_state (0, StartTask (js ''b'')))
                        (take 3 [1000, 2500, 3000])) = Some 3000"
proof -
  let ?s = "step ascii_toLowerCase abc_state (0, StartTask (js ''b''))"
  have ts: "tasks ?s =
      [\<lparr>id_task = js ''a'', name = js ''Meeting'', elapsed = 0, isDevOps = False\<rparr>,
       \<lparr>id_task = js ''b'', name = js ''Admin'', elapsed = 0, isDevOps = False\<rparr>,
       \<lparr>id_task = js ''c'', name = js ''Email'', elapsed = 0, isDevOps = False\<rparr>]"
    by (simp add: running_b) (simp add: abc_state_def)
  have h1: "activeTaskId ?s = Some (js ''b'')" by (simp add: running_b)
  have h2: "js ''b'' \<noteq> []" by (simp add: js_def)
  have h3: "activeStartRef ?s = Some 0" by (simp add: running_b)
  have h4: "sorted_wrt (<) (0 # [1000, 2500, 3000 :: int])" by simp
  have h5: "\<forall>t \<in> set (tasks ?s). id_task t = js ''b'' \<longrightarrow>
      0 \<le> elapsed t \<and> elapsed t + (last (0 # [1000, 2500, 3000]) - 0) \<le> 2 ^ 53"
    by (simp add: ts)
  then have h5': "list_all (\<lambda>t. id_task t = js ''b'' \<longrightarrow>
      0 \<le> elapsed t \<and> elapsed t + (last (0 # [1000, 2500, 3000]) - 0) \<le> 2 ^ 53) (tasks ?s)"
    by (simp only: list_all_iff)
  note ta = tick_accumulation [OF h1 h2 h3 h4 h5]
  have c: "\<forall>k \<le> length [1000, 2500, 3000 :: int].
      activeStartRef (ticks ?s (take k [1000, 2500, 3000])) = Some ((0 # [1000, 2500, 3000]) ! k)"
    by (rule ta [THEN conjunct2, THEN conjunct2, THEN conjunct1])
  have e: "\<forall>n < length (tasks ?s).
       elapsed (tasks (ticks ?s [1000, 2500, 3000]) ! n) =
         (if id_task (tasks ?s ! n) = js ''b''
          then elapsed (tasks ?s ! n) + (last (0 # [1000, 2500, 3000]) - 0)
          else elapsed (tasks ?s ! n))"
    by (rule ta [THEN conjunct2, THEN conjunct2, THEN conjunct2, THEN conjunct2, THEN conjunct2])
  have e1: "elapsed (tasks (ticks ?s [1000, 2500, 3000]) ! 1) = 3000"
    using e [rule_format, of 1] by (simp add: ts)
  have e2: "elapsed (tasks (ticks ?s [1000, 2500, 3000]) ! 2) = 0"
    using e [rule_format, of 2] by (simp add: ts) (simp add: js_def)
  have c': "activeStartRef (ticks ?s (take 3 [1000, 2500, 3000])) = Some 3000"
    using c [rule_format, of 3] by simp
  from h1 h2 h3 h4 h5' e1 e2 c' show ?thesis by (intro conjI)
qed

section \<open>Validity of the active id\<close>

lemma id_task_credit: "id_task (credit a d t) = id_task t"
  by (simp add: credit_def)

lemma ids_interval_tick: "id_task ` set (tasks (interval_tick s now)) = id_task ` set (tasks s)"
  by (simp add: tasks_interval_tick image_image id_task_credit)

lemma valid_active_rerender: "valid_active (rerender old s now) = valid_active s"
  by (simp add: valid_active_def activeTaskId_rerender tasks_rerender split: option.splits)

lemma valid_active_step:
  assumes "valid_active s" and "known_id s e"
  shows "valid_active (step lc s (now, e))"
proof (cases e)
  case (StartTask i)
  with assms show ?thesis
    by (simp add: step_def valid_active_rerender)
       (simp add: valid_active_def dispatch_def startTask_def)
next
  case PauseTask
  then show ?thesis
    by (simp add: step_def valid_active_rerender)
       (simp add: valid_active_def dispatch_def pauseTask_def)
next
  case (ToggleTask i)
  with assms show ?thesis
    by (simp add: step_def valid_active_rerender)
       (simp add: valid_active_def dispatch_def toggleTask_def pauseTask_def startTask_def)
next
  case (AddTask nm d newId)
  with assms(1) show ?thesis
    by (simp add: step_def valid_active_rerender)
       (auto simp: valid_active_def dispatch_def addTask_def Let_def split: option.splits)
next
  case (RemoveTask i)
  with assms(1) show ?thesis
    by (simp add: step_def valid_active_rerender)
       (auto simp: valid_active_def dispatch_def removeTask_def split: option.splits)
next
  case ClearAll
  then show ?thesis
    by (simp add: step_def valid_active_rerender)
       (simp add: valid_active_def dispatch_def clearAll_def)
next
  case Tick
  with assms(1) show ?thesis
    by (simp add: step_def valid_active_def activeTaskId_interval_tick ids_interval_tick
        split: option.splits)
qed

lemma valid_active_run:
  "valid_active s \<Longrightarrow> known_ids lc s evs \<Longrightarrow> valid_active (run lc s evs)"
proof (induction evs arbitrary: s)
  case Nil
  then show ?case by (simp add: run_def)
next
  case (Cons ev evs)
  obtain now e where ev: "ev = (now, e)" by (cases ev)
  from Cons.prems have "valid_active (step lc s ev)"
    by (simp add: ev valid_active_step)
  moreover from Cons.prems have "known_ids lc (step lc s ev) evs" by simp
  ultimately have "valid_active (run lc (step lc s ev) evs)" by (rule Cons.IH)
  then show ?case by (simp add: run_def)
qed

lemma activeTask_Some:
  "activeTask s = Some t \<Longrightarrow> t \<in> set (tasks s) \<and> activeTaskId s = Some (id_task t)"
  by (auto simp: activeTask_def find_Some_iff)

lemma dangling_activeTask:
  assumes "\<not> valid_active s"
  shows "activeTask s = None \<and> tasks (interval_tick s now) = tasks s"
proof -
  from assms obtain a where a: "activeTaskId s = Some a" "a \<notin> id_task ` set (tasks s)"
    by (auto simp: valid_active_def split: option.splits)
  have "map (credit (Some a) d) ts = ts" if "a \<notin> id_task ` set ts" for d and ts :: "Task list"
    using that by (induction ts) (auto simp: credit_def)
  moreover have "find (\<lambda>t. Some (id_task t) = Some a) ts = None"
    if "a \<notin> id_task ` set ts" for ts :: "Task list"
    using that by (induction ts) auto
  ultimately show ?thesis
    using a by (simp add: activeTask_def tasks_interval_tick)
qed

text \<open>
  C3 as stated fails: when the storage holds an active id and no tasks, the component
  mounts with that id active, the interval running, and no task of that id.
\<close>

theorem active_id_validity_counterexample:
  "activeTaskId (Switchboard_initial JSON_parse_empty_array JSON_parse_string_or_null
       (Some storage_active_only) True 0) = Some (js ''gone'') \<and>
   tasks (Switchboard_initial JSON_parse_empty_array JSON_parse_string_or_null
       (Some storage_active_only) True 0) = [] \<and>
   \<not> valid_active (Switchboard_initial JSON_parse_empty_array JSON_parse_string_or_null
       (Some storage_active_only) True 0)"
  by (simp add: Switchboard_initial_def useLocalStorage_def readFromStorage_def
      storage_active_only_def JSON_parse_string_or_null_def js_def timer_effect_def falsy_def
      valid_active_def)

text \<open>
  C3, amended. The active id is not validated. What holds: if the active id names a
  present task, it still does after any events whose start and toggle ids name tasks
  present at the time (removing the active task clears the id); the derived
  \<open>activeTask\<close> is either \<open>null\<close> or a present task with the active id; and when the
  active id names no task, \<open>activeTask\<close> is \<open>null\<close> and a tick changes no task.
\<close>

theorem active_id_validity_preserved:
  "(valid_active s \<and> known_ids lc s evs \<longrightarrow> valid_active (run lc s evs)) \<and>
   (\<forall>t. activeTask s = Some t \<longrightarrow> t \<in> set (tasks s) \<and> activeTaskId s = Some (id_task t)) \<and>
   (\<not> valid_active s \<longrightarrow> activeTask s = None \<and> tasks (interval_tick s now) = tasks s)"
  using valid_active_run activeTask_Some dangling_activeTask by blast

text \<open>
  C3, amended, on a run that starts b, ticks and removes b, and on a state whose active
  id names no task.
\<close>

theorem active_id_validity_preserved_witness:
  "valid_active abc_state \<and>
   known_ids ascii_toLowerCase abc_state
     [(0, StartTask (js ''b'')), (5, Tick), (9, RemoveTask (js ''b''))] \<and>
   valid_active (run ascii_toLowerCase abc_state
     [(0, StartTask (js ''b'')), (5, Tick), (9, RemoveTask (js ''b''))]) \<and>
   \<not> valid_active (abc_state\<lparr>activeTaskId := Some (js ''gone'')\<rparr>) \<and>
   activeTask (abc_state\<lparr>activeTaskId := Some (js ''gone'')\<rparr>) = None \<and>
   tasks (interval_tick (abc_state\<lparr>activeTaskId := Some (js ''gone'')\<rparr>) 1000) = tasks abc_state"
proof -
  let ?evs = "[(0, StartTask (js ''b'')), (5, Tick), (9, RemoveTask (js ''b''))]"
  let ?d = "abc_state\<lparr>activeTaskId := Some (js ''gone'')\<rparr>"
  have v: "valid_active abc_state"
    by (simp add: valid_active_def abc_state_def)
  have k: "known_ids ascii_toLowerCase abc_state ?evs"
    by (simp add: step_def rerender_def dispatch_def startTask_def timer_effect_def
        interval_tick_def credit_def falsy_def abc_state_def js_def)
  have nv: "\<not> valid_active ?d"
    by (simp add: valid_active_def abc_state_def js_def)
  note p1 = active_id_validity_preserved [of abc_state ascii_toLowerCase ?evs 1000]
  note p2 = active_id_validity_preserved [of ?d ascii_toLowerCase "[]" 1000]
  have r: "valid_active (run ascii_toLowerCase abc_state ?evs)"
    by (rule p1 [THEN conjunct1, THEN mp, OF conjI [OF v k]])
  have d: "activeTask ?d = None \<and> tasks (interval_tick ?d 1000) = tasks ?d"
    by (rule p2 [THEN conjunct2, THEN conjunct2, THEN mp, OF nv])
  have d2: "tasks (interval_tick ?d 1000) = tasks abc_state"
    using d by simp
  from v k r nv d [THEN conjunct1] d2 show ?thesis by (intro conjI)
qed

section \<open>Reading the persistent store\<close>

text \<open>
  C5 as stated fails for a payload of the wrong shape: with the text \<open>5\<close> stored under
  \<open>switchboard-tasks\<close>, where an array is expected and the initial value is the empty
  array, the value observed after hydration is the number 5.
\<close>

theorem read_wrong_shape_counterexample:
  "\<not> is_JArray (JNumber 5) \<and>
   useLocalStorage JSON_parse_digits (Some storage_tasks_5) True (js ''switchboard-tasks'')
      (JArray []) = JNumber 5 \<and>
   useLocalStorage JSON_parse_digits (Some storage_tasks_5) True (js ''switchboard-tasks'')
      (JArray []) \<noteq> JArray []"
  by (simp add: useLocalStorage_def readFromStorage_def storage_tasks_5_def
      JSON_parse_digits_def js_def isDigit_def num_exact)

text \<open>
  C5, amended. The observed value is the initial value before hydration, when \<open>window\<close>
  is undefined, when reading the storage throws, when nothing or the empty text is stored
  under the key, and when \<open>JSON.parse\<close> throws on the stored text. After hydration, a
  stored text that parses is observed as the parsed value, whatever its shape.
\<close>

theorem read_fallback:
  "(\<not> hydrated \<longrightarrow> useLocalStorage parse window hydrated key init = init) \<and>
   (window = None \<longrightarrow> useLocalStorage parse window hydrated key init = init) \<and>
   (\<forall>getItem e. window = Some getItem \<and> getItem key = Inl e \<longrightarrow>
        useLocalStorage parse window hydrated key init = init) \<and>
   (\<forall>getItem. window = Some getItem \<and> (getItem key = Inr None \<or> getItem key = Inr (Some [])) \<longrightarrow>
        useLocalStorage parse window hydrated key init = init) \<and>
   (\<forall>getItem item e. window = Some getItem \<and> getItem key = Inr (Some item) \<and> parse item = Inl e \<longrightarrow>
        useLocalStorage parse window hydrated key init = init) \<and>
   (\<forall>getItem item v. hydrated \<and> window = Some getItem \<and> getItem key = Inr (Some item) \<and>
        item \<noteq> [] \<and> parse item = Inr v \<longrightarrow>
        useLocalStorage parse window hydrated key init = v)"
  by (auto simp: useLocalStorage_def readFromStorage_def)

text \<open>
  C5, amended, one conjunct of the theorem after the other: before hydration, without
  \<open>window\<close>, with a storage that throws, with nothing and with the empty text under the key,
  with a text that is not JSON, and with the text \<open>5\<close>.
\<close>

theorem read_fallback_witness:
  "useLocalStorage JSON_parse_digits (Some storage_tasks_5) False (js ''switchboard-tasks'')
      (JArray []) = JArray [] \<and>
   useLocalStorage JSON_parse_digits None True (js ''switchboard-tasks'') (JArray []) = JArray [] \<and>
   storage_denied (js ''switchboard-tasks'') = Inl SecurityError \<and>
   useLocalStorage JSON_parse_digits (Some storage_denied) True (js ''switchboard-tasks'')
      (JArray []) = JArray [] \<and>
   storage_tasks_5 (js ''switchboard-active'') = Inr None \<and>
   useLocalStorage JSON_parse_digits (Some storage_tasks_5) True (js ''switchboard-active'')
      JNull = JNull \<and>
   storage_corrupt (js ''switchboard-active'') = Inr (Some []) \<and>
   useLocalStorage JSON_parse_digits (Some storage_corrupt) True (js ''switchboard-active'')
      JNull = JNull \<and>
   storage_corrupt (js ''switchboard-tasks'') = Inr (Some (js ''{oops'')) \<and>
   JSON_parse_digits (js ''{oops'') = Inl SyntaxError \<and>
   useLocalStorage JSON_parse_digits (Some storage_corrupt) True (js ''switchboard-tasks'')
      (JArray []) = JArray [] \<and>
   storage_tasks_5 (js ''switchboard-tasks'') = Inr (Some (js ''5'')) \<and>
   js ''5'' \<noteq> [] \<and>
   JSON_parse_digits (js ''5'') = Inr (JNumber 5) \<and>
   useLocalStorage JSON_parse_digits (Some storage_tasks_5) True (js ''switchboard-tasks'')
      (JArray []) = JNumber 5"
proof -
  let ?K = "js ''switchboard-tasks''" and ?A = "js ''switchboard-active''"
  have ka: "?A \<noteq> ?K" by (simp add: js_def)
  have a: "useLocalStorage JSON_parse_digits (Some storage_tasks_5) False ?K (JArray []) = JArray []"
    using read_fallback [of False JSON_parse_digits "Some storage_tasks_5" ?K "JArray []"]
    by simp
  have b: "useLocalStorage JSON_parse_digits None True ?K (JArray []) = JArray []"
    using read_fallback [of True JSON_parse_digits None ?K "JArray []"] by simp
  have c0: "storage_denied ?K = Inl SecurityError"
    by (simp add: storage_denied_def)
  have c: "useLocalStorage JSON_parse_digits (Some storage_denied) True ?K (JArray []) = JArray []"
    using read_fallback [of True JSON_parse_digits "Some storage_denied" ?K "JArray []"] c0
    by blast
  have d0: "storage_tasks_5 ?A = Inr None"
    using ka by (simp add: storage_tasks_5_def)
  have d: "useLocalStorage JSON_parse_digits (Some storage_tasks_5) True ?A JNull = JNull"
    using read_fallback [of True JSON_parse_digits "Some storage_tasks_5" ?A JNull] d0
    by blast
  have e0: "storage_corrupt ?A = Inr (Some [])"
    using ka by (simp add: storage_corrupt_def)
  have e: "useLocalStorage JSON_parse_digits (Some storage_corrupt) True ?A JNull = JNull"
    using read_fallback [of True JSON_parse_digits "Some storage_corrupt" ?A JNull] e0
    by blast
  have f0: "storage_corrupt ?K = Inr (Some (js ''{oops''))"
    by (simp add: storage_corrupt_def)
  have f1: "JSON_parse_digits (js ''{oops'') = Inl SyntaxError"
    by (simp add: JSON_parse_digits_def isDigit_def js_def)
  have f: "useLocalStorage JSON_parse_digits (Some storage_corrupt) True ?K (JArray []) = JArray []"
    using read_fallback [of True JSON_parse_digits "Some storage_corrupt" ?K "JArray []"] f0 f1
    by blast
  have g0: "storage_tasks_5 ?K = Inr (Some (js ''5''))"
    by (simp add: storage_tasks_5_def)
  have g1: "js ''5'' \<noteq> []" by (simp add: js_def)
  have g2: "JSON_parse_digits (js ''5'') = Inr (JNumber 5)"
    by (simp add: JSON_parse_digits_def isDigit_def js_def num_exact)
  have g: "useLocalStorage JSON_parse_digits (Some storage_tasks_5) True ?K (JArray []) = JNumber 5"
    using read_fallback [of True JSON_parse_digits "Some storage_tasks_5" ?K "JArray []"] g0 g1 g2
    by blast
  from a b c0 c d0 d e0 e f0 f1 f g0 g1 g2 g show ?thesis by (intro conjI)
qed

section \<open>Adding a task\<close>

lemma rev_dropWhile_takeWhile:
  "xs = rev (dropWhile P (rev xs)) @ rev (takeWhile P (rev xs))"
  by (metis rev_append rev_rev_ident takeWhile_dropWhile_id)

lemma trim_decomposition:
  "\<exists>pre post. nm = pre @ trim nm @ post \<and> list_all isWhiteSpace pre \<and> list_all isWhiteSpace post"
proof -
  define rest where "rest = dropWhile isWhiteSpace nm"
  have 1: "nm = takeWhile isWhiteSpace nm @ rest"
    by (simp add: rest_def)
  have 2: "rest = trim nm @ rev (takeWhile isWhiteSpace (rev rest))"
    unfolding trim_def rest_def [symmetric] by (rule rev_dropWhile_takeWhile)
  have 3: "list_all isWhiteSpace (takeWhile isWhiteSpace nm)"
    by (auto simp: list_all_iff dest: set_takeWhileD)
  have 4: "list_all isWhiteSpace (rev (takeWhile isWhiteSpace (rev rest)))"
    by (auto simp: list_all_iff dest: set_takeWhileD)
  from 1 2 have "nm = takeWhile isWhiteSpace nm @ trim nm @ rev (takeWhile isWhiteSpace (rev rest))"
    by simp
  with 3 4 show ?thesis by blast
qed

lemma trim_ends:
  assumes "trim nm \<noteq> []"
  shows "\<not> isWhiteSpace (hd (trim nm)) \<and> \<not> isWhiteSpace (last (trim nm))"
proof -
  define rest where "rest = dropWhile isWhiteSpace nm"
  define core where "core = dropWhile isWhiteSpace (rev rest)"
  have t: "trim nm = rev core" by (simp add: trim_def rest_def core_def)
  with assms have c: "core \<noteq> []" by simp
  then have "\<not> isWhiteSpace (hd core)" unfolding core_def by (rule hd_dropWhile)
  with c have l: "\<not> isWhiteSpace (last (trim nm))" by (simp add: t last_rev)
  have r: "rest = rev core @ rev (takeWhile isWhiteSpace (rev rest))"
    unfolding core_def by (rule rev_dropWhile_takeWhile)
  with c have rne: "rest \<noteq> []" by auto
  from r c have "hd rest = hd (rev core)" by (metis hd_append2 rev_is_Nil_conv)
  moreover from rne have "\<not> isWhiteSpace (hd rest)" unfolding rest_def by (rule hd_dropWhile)
  ultimately have "\<not> isWhiteSpace (hd (trim nm))" by (simp add: t)
  with l show ?thesis by simp
qed

lemma dispatch_addTask:
  "dispatch s (addTask lc (tasks s) nm d now rnd) =
     (if trim nm = [] \<or> (\<exists>t \<in> set (tasks s). lc (name t) = lc (trim nm)) then s
      else s\<lparr>tasks := tasks s @
              [\<lparr>id_task = generateId now rnd, name = trim nm, elapsed = 0, isDevOps = d\<rparr>]\<rparr>)"
  by (simp add: addTask_def dispatch_def Let_def list_ex_iff)

lemma meeting_state_eq:
  "meeting_state =
     \<lparr>tasks = [\<lparr>id_task = js ''rs4fzyo'', name = js ''Meeting'', elapsed = 0, isDevOps = False\<rparr>],
      activeTaskId = None, activeStartRef = None\<rparr>"
  by (simp add: meeting_state_def addTask_def dispatch_def Let_def trim_def isWhiteSpace_def
      generateId_def toString36_def digit36_def js_def)

text \<open>
  C6 as stated fails for the id: \<open>generateId()\<close> keeps five characters of the random text,
  and two calls at the same clock reading whose random texts agree on these give the same
  id to two tasks.
\<close>

theorem addTask_id_counterexample:
  "js ''0.4fzyo82m'' \<noteq> js ''0.4fzyo9k1'' \<and>
   map id_task (tasks (dispatch meeting_state
     (addTask ascii_toLowerCase (tasks meeting_state) (js ''Admin'') False 1000
        (js ''0.4fzyo9k1'')))) = [js ''rs4fzyo'', js ''rs4fzyo''] \<and>
   \<not> distinct (map id_task (tasks (dispatch meeting_state
     (addTask ascii_toLowerCase (tasks meeting_state) (js ''Admin'') False 1000
        (js ''0.4fzyo9k1'')))))"
  by (simp add: meeting_state_eq addTask_def dispatch_def Let_def trim_def isWhiteSpace_def
      ascii_toLowerCase_def generateId_def toString36_def digit36_def js_def)

text \<open>
  C6, amended. \<open>addTask\<close> trims the name: the trimmed name is the name without a longest
  run of white space at each end. When the trimmed name is empty or equals the name of a
  task after \<open>toLowerCase\<close> on both, the state is unchanged. Otherwise exactly one task is
  appended: the trimmed name, elapsed 0, the given flag, and the id of \<open>generateId()\<close>,
  which is the clock reading in base 36 followed by the third to seventh character of
  the random text. Names that differ pairwise after \<open>toLowerCase\<close> still do afterwards.
  The id is not checked against the tasks: distinct ids stay distinct when no task has
  the generated id.
\<close>

theorem addTask_semantics:
  "(\<exists>pre post. nm = pre @ trim nm @ post \<and>
       list_all isWhiteSpace pre \<and> list_all isWhiteSpace post) \<and>
   (trim nm \<noteq> [] \<longrightarrow> \<not> isWhiteSpace (hd (trim nm)) \<and> \<not> isWhiteSpace (last (trim nm))) \<and>
   ((trim nm = [] \<or> (\<exists>t \<in> set (tasks s). lc (name t) = lc (trim nm))) \<longrightarrow>
      dispatch s (addTask lc (tasks s) nm d now rnd) = s) \<and>
   (trim nm \<noteq> [] \<and> (\<forall>t \<in> set (tasks s). lc (name t) \<noteq> lc (trim nm)) \<longrightarrow>
      dispatch s (addTask lc (tasks s) nm d now rnd) =
        s\<lparr>tasks := tasks s @
              [\<lparr>id_task = toString36 now @ take 5 (drop 2 rnd), name = trim nm, elapsed = 0,
                isDevOps = d\<rparr>]\<rparr>) \<and>
   (distinct (map (\<lambda>t. lc (name t)) (tasks s)) \<longrightarrow>
      distinct (map (\<lambda>t. lc (name t)) (tasks (dispatch s (addTask lc (tasks s) nm d now rnd))))) \<and>
   (distinct (map id_task (tasks s)) \<and>
    toString36 now @ take 5 (drop 2 rnd) \<notin> id_task ` set (tasks s) \<longrightarrow>
      distinct (map id_task (tasks (dispatch s (addTask lc (tasks s) nm d now rnd)))))"
proof -
  note td = trim_decomposition [of nm]
  have te: "trim nm \<noteq> [] \<longrightarrow>
      \<not> isWhiteSpace (hd (trim nm)) \<and> \<not> isWhiteSpace (last (trim nm))"
    using trim_ends by blast
  have rest: "((trim nm = [] \<or> (\<exists>t \<in> set (tasks s). lc (name t) = lc (trim nm))) \<longrightarrow>
      dispatch s (addTask lc (tasks s) nm d now rnd) = s) \<and>
   (trim nm \<noteq> [] \<and> (\<forall>t \<in> set (tasks s). lc (name t) \<noteq> lc (trim nm)) \<longrightarrow>
      dispatch s (addTask lc (tasks s) nm d now rnd) =
        s\<lparr>tasks := tasks s @
              [\<lparr>id_task = toString36 now @ take 5 (drop 2 rnd), name = trim nm, elapsed = 0,
                isDevOps = d\<rparr>]\<rparr>) \<and>
   (distinct (map (\<lambda>t. lc (name t)) (tasks s)) \<longrightarrow>
      distinct (map (\<lambda>t. lc (name t)) (tasks (dispatch s (addTask lc (tasks s) nm d now rnd))))) \<and>
   (distinct (map id_task (tasks s)) \<and>
    toString36 now @ take 5 (drop 2 rnd) \<notin> id_task ` set (tasks s) \<longrightarrow>
      distinct (map id_task (tasks (dispatch s (addTask lc (tasks s) nm d now rnd)))))"
    by (auto simp: dispatch_addTask generateId_def)
  show ?thesis by (rule conjI [OF td conjI [OF te rest]])
qed

lemma generateId_2000: "toString36 2000 @ take 5 (drop 2 (js ''0.4fzyo82m'')) = js ''1jk4fzyo''"
  by (simp add: toString36_def digit36_def js_def)

text \<open>
  C6, amended, on the spec's example: "Meeting" is there, "meeting" is rejected, and
  " Admin " is added as "Admin".
\<close>

theorem addTask_semantics_witness:
  "(\<exists>t \<in> set (tasks meeting_state).
      ascii_toLowerCase (name t) = ascii_toLowerCase (trim (js ''meeting''))) \<and>
   dispatch meeting_state
     (addTask ascii_toLowerCase (tasks meeting_state) (js ''meeting'') False 2000
        (js ''0.4fzyo82m'')) = meeting_state \<and>
   trim (js '' Admin '') = js ''Admin'' \<and>
   \<not> (\<exists>t \<in> set (tasks meeting_state).
      ascii_toLowerCase (name t) = ascii_toLowerCase (trim (js '' Admin ''))) \<and>
   dispatch meeting_state
     (addTask ascii_toLowerCase (tasks meeting_state) (js '' Admin '') False 2000
        (js ''0.4fzyo82m''))
     = meeting_state\<lparr>tasks := tasks meeting_state @
         [\<lparr>id_task = js ''1jk4fzyo'', name = js ''Admin'', elapsed = 0, isDevOps = False\<rparr>]\<rparr> \<and>
   distinct (map (\<lambda>t. ascii_toLowerCase (name t)) (tasks meeting_state)) \<and>
   distinct (map (\<lambda>t. ascii_toLowerCase (name t)) (tasks (dispatch meeting_state
     (addTask ascii_toLowerCase (tasks meeting_state) (js '' Admin '') False 2000
        (js ''0.4fzyo82m''))))) \<and>
   distinct (map id_task (tasks meeting_state)) \<and>
   js ''1jk4fzyo'' \<notin> id_task ` set (tasks meeting_state) \<and>
   distinct (map id_task (tasks (dispatch meeting_state
     (addTask ascii_toLowerCase (tasks meeting_state) (js '' Admin '') False 2000
        (js ''0.4fzyo82m'')))))"
proof -
  note dup = addTask_semantics [of "js ''meeting''" meeting_state ascii_toLowerCase False 2000
      "js ''0.4fzyo82m''"]
  note new = addTask_semantics [of "js '' Admin ''" meeting_state ascii_toLowerCase False 2000
      "js ''0.4fzyo82m''"]
  have tr: "trim (js '' Admin '') = js ''Admin''"
    by (simp add: trim_def isWhiteSpace_def js_def)
  have h1: "\<exists>t \<in> set (tasks meeting_state).
      ascii_toLowerCase (name t) = ascii_toLowerCase (trim (js ''meeting''))"
    by (simp add: meeting_state_eq) (simp add: ascii_toLowerCase_def trim_def isWhiteSpace_def js_def)
  have c1: "dispatch meeting_state
     (addTask ascii_toLowerCase (tasks meeting_state) (js ''meeting'') False 2000
        (js ''0.4fzyo82m'')) = meeting_state"
    by (rule dup [THEN conjunct2, THEN conjunct2, THEN conjunct1, THEN mp, OF disjI2 [OF h1]])
  have h2: "trim (js '' Admin '') \<noteq> []"
    by (simp add: tr) (simp add: js_def)
  have h3: "\<forall>t \<in> set (tasks meeting_state).
      ascii_toLowerCase (name t) \<noteq> ascii_toLowerCase (trim (js '' Admin ''))"
    by (simp add: meeting_state_eq) (simp add: ascii_toLowerCase_def trim_def isWhiteSpace_def js_def)
  then have h3': "\<not> (\<exists>t \<in> set (tasks meeting_state).
      ascii_toLowerCase (name t) = ascii_toLowerCase (trim (js '' Admin '')))"
    by blast
  have c2: "dispatch meeting_state
     (addTask ascii_toLowerCase (tasks meeting_state) (js '' Admin '') False 2000
        (js ''0.4fzyo82m''))
     = meeting_state\<lparr>tasks := tasks meeting_state @
         [\<lparr>id_task = js ''1jk4fzyo'', name = js ''Admin'', elapsed = 0, isDevOps = False\<rparr>]\<rparr>"
    using new [THEN conjunct2, THEN conjunct2, THEN conjunct2, THEN conjunct1, THEN mp,
        OF conjI [OF h2 h3]]
    unfolding generateId_2000 tr .
  have h4: "distinct (map (\<lambda>t. ascii_toLowerCase (name t)) (tasks meeting_state))"
    by (simp add: meeting_state_eq)
  have c3: "distinct (map (\<lambda>t. ascii_toLowerCase (name t)) (tasks (dispatch meeting_state
     (addTask ascii_toLowerCase (tasks meeting_state) (js '' Admin '') False 2000
        (js ''0.4fzyo82m'')))))"
    by (rule new [THEN conjunct2, THEN conjunct2, THEN conjunct2, THEN conjunct2, THEN conjunct1,
          THEN mp, OF h4])
  have h5: "distinct (map id_task (tasks meeting_state))"
    by (simp add: meeting_state_eq)
  have h6: "js ''1jk4fzyo'' \<notin> id_task ` set (tasks meeting_state)"
    by (simp add: meeting_state_eq) (simp add: js_def)
  have h6': "toString36 2000 @ take 5 (drop 2 (js ''0.4fzyo82m'')) \<notin>
      id_task ` set (tasks meeting_state)"
    unfolding generateId_2000 by (rule h6)
  have c4: "distinct (map id_task (tasks (dispatch meeting_state
     (addTask ascii_toLowerCase (tasks meeting_state) (js '' Admin '') False 2000
        (js ''0.4fzyo82m'')))))"
    by (rule new [THEN conjunct2, THEN conjunct2, THEN conjunct2, THEN conjunct2, THEN conjunct2,
          THEN mp, OF conjI [OF h5 h6']])
  from h1 c1 tr h3' c2 h4 c3 h5 h6 c4 show ?thesis by (intro conjI)
qed

section \<open>Removing a task\<close>

lemma dispatch_removeTask:
  "dispatch s (removeTask (activeTaskId s) i) =
     s\<lparr>activeTaskId := (if activeTaskId s = Some i then None else activeTaskId s),
       tasks := filter (\<lambda>t. id_task t \<noteq> i) (tasks s)\<rparr>"
  by (simp add: removeTask_def dispatch_def)

lemma filter_absent_id: "i \<notin> id_task ` set ts \<Longrightarrow> filter (\<lambda>t. id_task t \<noteq> i) ts = ts"
  by (induction ts) auto

lemma filter_distinct_id_length:
  "distinct (map id_task ts) \<Longrightarrow> i \<in> id_task ` set ts \<Longrightarrow>
     Suc (length (filter (\<lambda>t. id_task t \<noteq> i) ts)) = length ts"
proof (induction ts)
  case Nil
  then show ?case by simp
next
  case (Cons t ts)
  show ?case
  proof (cases "id_task t = i")
    case True
    with Cons.prems have "i \<notin> id_task ` set ts" by auto
    with True show ?thesis by (simp add: filter_absent_id)
  next
    case False
    with Cons show ?thesis by auto
  qed
qed

lemma step_removeTask:
  "step lc s (now, RemoveTask i) =
     rerender s (s\<lparr>activeTaskId := (if activeTaskId s = Some i then None else activeTaskId s),
                   tasks := filter (\<lambda>t. id_task t \<noteq> i) (tasks s)\<rparr>) now"
  by (simp add: step_def dispatch_removeTask)

lemma step_removeTask_active:
  assumes "activeTaskId s = Some i"
  shows "step lc s (now, RemoveTask i) =
           s\<lparr>activeTaskId := None, tasks := filter (\<lambda>t. id_task t \<noteq> i) (tasks s),
             activeStartRef := None\<rparr>"
  using assms
  by (simp add: step_removeTask rerender_def timer_effect_def falsy_def)

text \<open>
  C7 as stated fails: in the state the component mounts in when the storage holds an
  active id and no tasks, \<open>removeTask\<close> of that id, which names no task, clears the active
  id.
\<close>

theorem removeTask_dangling_counterexample:
  "js ''gone'' \<notin> id_task ` set (tasks \<lparr>tasks = [], activeTaskId = Some (js ''gone''),
                                         activeStartRef = Some 0\<rparr>) \<and>
   dispatch \<lparr>tasks = [], activeTaskId = Some (js ''gone''), activeStartRef = Some 0\<rparr>
       (removeTask (Some (js ''gone'')) (js ''gone''))
     \<noteq> \<lparr>tasks = [], activeTaskId = Some (js ''gone''), activeStartRef = Some 0\<rparr>"
  by (simp add: removeTask_def dispatch_def)

text \<open>
  C7, amended. \<open>removeTask\<close> keeps exactly the tasks whose id differs from the given one,
  in their order, and clears the active id when it equals the given id, whether a task
  has that id or not. So it changes nothing when the id names no task and is not the
  active id; afterwards no task has the id; with distinct ids exactly one task is gone;
  and removing the active id leaves the component idle after the render: no active id, no
  last reading, the id absent, and a tick changes nothing.
\<close>

theorem removeTask_semantics:
  "tasks (dispatch s (removeTask (activeTaskId s) i)) = filter (\<lambda>t. id_task t \<noteq> i) (tasks s) \<and>
   activeTaskId (dispatch s (removeTask (activeTaskId s) i)) =
     (if activeTaskId s = Some i then None else activeTaskId s) \<and>
   (i \<notin> id_task ` set (tasks s) \<and> activeTaskId s \<noteq> Some i \<longrightarrow>
      dispatch s (removeTask (activeTaskId s) i) = s) \<and>
   i \<notin> id_task ` set (tasks (dispatch s (removeTask (activeTaskId s) i))) \<and>
   (distinct (map id_task (tasks s)) \<and> i \<in> id_task ` set (tasks s) \<longrightarrow>
      Suc (length (tasks (dispatch s (removeTask (activeTaskId s) i)))) = length (tasks s)) \<and>
   (activeTaskId s = Some i \<longrightarrow>
      activeTaskId (step lc s (now, RemoveTask i)) = None \<and>
      activeStartRef (step lc s (now, RemoveTask i)) = None \<and>
      i \<notin> id_task ` set (tasks (step lc s (now, RemoveTask i))) \<and>
      interval_tick (step lc s (now, RemoveTask i)) now' = step lc s (now, RemoveTask i))"
proof -
  let ?s' = "dispatch s (removeTask (activeTaskId s) i)"
  have a: "tasks ?s' = filter (\<lambda>t. id_task t \<noteq> i) (tasks s)"
    by (simp add: dispatch_removeTask)
  have b: "activeTaskId ?s' = (if activeTaskId s = Some i then None else activeTaskId s)"
    by (simp add: dispatch_removeTask)
  have c: "i \<notin> id_task ` set (tasks s) \<and> activeTaskId s \<noteq> Some i \<longrightarrow> ?s' = s"
    by (simp add: dispatch_removeTask filter_absent_id)
  have d: "i \<notin> id_task ` set (tasks ?s')"
    by (auto simp: dispatch_removeTask)
  have e: "distinct (map id_task (tasks s)) \<and> i \<in> id_task ` set (tasks s) \<longrightarrow>
      Suc (length (tasks ?s')) = length (tasks s)"
    using filter_distinct_id_length [of "tasks s" i] by (simp add: dispatch_removeTask)
  have f: "activeTaskId s = Some i \<longrightarrow>
      activeTaskId (step lc s (now, RemoveTask i)) = None \<and>
      activeStartRef (step lc s (now, RemoveTask i)) = None \<and>
      i \<notin> id_task ` set (tasks (step lc s (now, RemoveTask i))) \<and>
      interval_tick (step lc s (now, RemoveTask i)) now' = step lc s (now, RemoveTask i)"
    by (auto simp: step_removeTask_active interval_tick_def falsy_def)
  from a b c d e f show ?thesis by (intro conjI)
qed

text \<open>C7, amended, with b running: removing b, and removing an id that is not there.\<close>

theorem removeTask_semantics_witness:
  "activeTaskId (step ascii_toLowerCase abc_state (0, StartTask (js ''b''))) = Some (js ''b'') \<and>
   distinct (map id_task (tasks (step ascii_toLowerCase abc_state (0, StartTask (js ''b''))))) \<and>
   js ''b'' \<in> id_task ` set (tasks (step ascii_toLowerCase abc_state (0, StartTask (js ''b'')))) \<and>
   activeTaskId (step ascii_toLowerCase (step ascii_toLowerCase abc_state (0, StartTask (js ''b'')))
       (7, RemoveTask (js ''b''))) = None \<and>
   js ''b'' \<notin> id_task ` set (tasks (step ascii_toLowerCase
       (step ascii_toLowerCase abc_state (0, StartTask (js ''b''))) (7, RemoveTask (js ''b'')))) \<and>
   Suc (length (tasks (dispatch (step ascii_toLowerCase abc_state (0, StartTask (js ''b'')))
       (removeTask (activeTaskId (step ascii_toLowerCase abc_state (0, StartTask (js ''b''))))
          (js ''b''))))) = 3 \<and>
   js ''zz'' \<notin> id_task ` set (tasks (step ascii_toLowerCase abc_state (0, StartTask (js ''b'')))) \<and>
   activeTaskId (step ascii_toLowerCase abc_state (0, StartTask (js ''b''))) \<noteq> Some (js ''zz'') \<and>
   dispatch (step ascii_toLowerCase abc_state (0, StartTask (js ''b'')))
       (removeTask (activeTaskId (step ascii_toLowerCase abc_state (0, StartTask (js ''b''))))
          (js ''zz'')) = step ascii_toLowerCase abc_state (0, StartTask (js ''b''))"
proof -
  let ?s = "step ascii_toLowerCase abc_state (0, StartTask (js ''b''))"
  note rb = removeTask_semantics [of ?s "js ''b''" ascii_toLowerCase 7 8]
  note rz = removeTask_semantics [of ?s "js ''zz''" ascii_toLowerCase 7 8]
  have ts: "tasks ?s =
      [\<lparr>id_task = js ''a'', name = js ''Meeting'', elapsed = 0, isDevOps = False\<rparr>,
       \<lparr>id_task = js ''b'', name = js ''Admin'', elapsed = 0, isDevOps = False\<rparr>,
       \<lparr>id_task = js ''c'', name = js ''Email'', elapsed = 0, isDevOps = False\<rparr>]"
    by (simp add: running_b) (simp add: abc_state_def)
  have h1: "activeTaskId ?s = Some (js ''b'')" by (simp add: running_b)
  have h2: "distinct (map id_task (tasks ?s))" by (simp add: ts) (simp add: js_def)
  have h3: "js ''b'' \<in> id_task ` set (tasks ?s)" by (simp add: ts)
  have h4: "js ''zz'' \<notin> id_task ` set (tasks ?s)" by (simp add: ts) (simp add: js_def)
  have h5: "activeTaskId ?s \<noteq> Some (js ''zz'')" by (simp add: h1) (simp add: js_def)
  have f: "activeTaskId (step ascii_toLowerCase ?s (7, RemoveTask (js ''b''))) = None \<and>
      activeStartRef (step ascii_toLowerCase ?s (7, RemoveTask (js ''b''))) = None \<and>
      js ''b'' \<notin> id_task ` set (tasks (step ascii_toLowerCase ?s (7, RemoveTask (js ''b'')))) \<and>
      interval_tick (step ascii_toLowerCase ?s (7, RemoveTask (js ''b''))) 8 =
        step ascii_toLowerCase ?s (7, RemoveTask (js ''b''))"
    by (rule rb [THEN conjunct2, THEN conjunct2, THEN conjunct2, THEN conjunct2, THEN conjunct2,
          THEN mp, OF h1])
  have e: "Suc (length (tasks (dispatch ?s (removeTask (activeTaskId ?s) (js ''b''))))) =
      length (tasks ?s)"
    by (rule rb [THEN conjunct2, THEN conjunct2, THEN conjunct2, THEN conjunct2, THEN conjunct1,
          THEN mp, OF conjI [OF h2 h3]])
  have e': "Suc (length (tasks (dispatch ?s (removeTask (activeTaskId ?s) (js ''b''))))) = 3"
    using e by (simp add: ts)
  have c: "dispatch ?s (removeTask (activeTaskId ?s) (js ''zz'')) = ?s"
    by (rule rz [THEN conjunct2, THEN conjunct2, THEN conjunct1, THEN mp, OF conjI [OF h4 h5]])
  from h1 h2 h3 f [THEN conjunct1] f [THEN conjunct2, THEN conjunct2, THEN conjunct1] e' h4 h5 c
  show ?thesis by (intro conjI)
qed

section \<open>Classifying the input\<close>











section \<open>The two versions of the component\<close>

lemma addTask_v2_eq: "addTask_v2 lc ts nm d now rnd = addTask lc ts nm d now rnd"
  by (simp add: addTask_v2_def addTask_def)

lemma interval_tick_v2_eq: "interval_tick_v2 s now = interval_tick s now"
proof -
  have "(\<lambda>t. if Some (id_task t) = activeTaskId s then t\<lparr>elapsed := num_add (elapsed t) d\<rparr> else t) =
        credit (activeTaskId s) d" for d
    by (rule ext) (simp add: credit_def)
  then show ?thesis
    by (simp add: interval_tick_v2_def interval_tick_def falsy_def)
qed

text \<open>
  C10. The two versions of the component make the same setter calls in \<open>startTask\<close>,
  \<open>pauseTask\<close>, \<open>toggleTask\<close>, \<open>addTask\<close>, \<open>removeTask\<close> and
  \<open>handleAddCustomTask\<close>, and their timer effect and interval callback are the same
  functions of the state; so for every state and arguments the task collections and the
  active ids they produce are identical.
\<close>

theorem versions_agree:
  "startTask_v2 i = startTask i \<and>
   pauseTask_v2 = pauseTask \<and>
   toggleTask_v2 a i = toggleTask a i \<and>
   addTask_v2 lc ts nm d now rnd = addTask lc ts nm d now rnd \<and>
   removeTask_v2 a i = removeTask a i \<and>
   handleAddCustomTask_v2 lc ts nm now rnd = handleAddCustomTask lc ts nm now rnd \<and>
   timer_effect_v2 s now = timer_effect s now \<and>
   interval_tick_v2 s now = interval_tick s now \<and>
   tasks (dispatch s (startTask_v2 i)) = tasks (dispatch s (startTask i)) \<and>
   activeTaskId (dispatch s (startTask_v2 i)) = activeTaskId (dispatch s (startTask i)) \<and>
   tasks (dispatch s pauseTask_v2) = tasks (dispatch s pauseTask) \<and>
   activeTaskId (dispatch s pauseTask_v2) = activeTaskId (dispatch s pauseTask) \<and>
   tasks (dispatch s (toggleTask_v2 (activeTaskId s) i)) =
     tasks (dispatch s (toggleTask (activeTaskId s) i)) \<and>
   activeTaskId (dispatch s (toggleTask_v2 (activeTaskId s) i)) =
     activeTaskId (dispatch s (toggleTask (activeTaskId s) i)) \<and>
   tasks (dispatch s (addTask_v2 lc (tasks s) nm d now rnd)) =
     tasks (dispatch s (addTask lc (tasks s) nm d now rnd)) \<and>
   activeTaskId (dispatch s (addTask_v2 lc (tasks s) nm d now rnd)) =
     activeTaskId (dispatch s (addTask lc (tasks s) nm d now rnd)) \<and>
   tasks (dispatch s (removeTask_v2 (activeTaskId s) i)) =
     tasks (dispatch s (removeTask (activeTaskId s) i)) \<and>
   activeTaskId (dispatch s (removeTask_v2 (activeTaskId s) i)) =
     activeTaskId (dispatch s (removeTask (activeTaskId s) i)) \<and>
   tasks (interval_tick_v2 s now) = tasks (interval_tick s now) \<and>
   activeTaskId (interval_tick_v2 s now) = activeTaskId (interval_tick s now)"
proof -
  have st: "startTask_v2 i = startTask i"
    by (simp add: startTask_v2_def startTask_def)
  have pa: "pauseTask_v2 = pauseTask"
    by (simp add: pauseTask_v2_def pauseTask_def)
  have tg: "toggleTask_v2 a i = toggleTask a i" for a
    by (simp add: toggleTask_v2_def toggleTask_def st pa)
  have rm: "removeTask_v2 a i = removeTask a i" for a
    by (simp add: removeTask_v2_def removeTask_def)
  have ha: "handleAddCustomTask_v2 lc ts nm now rnd = handleAddCustomTask lc ts nm now rnd"
    by (simp add: handleAddCustomTask_v2_def handleAddCustomTask_def addTask_v2_eq)
  have te: "timer_effect_v2 s now = timer_effect s now"
    by (simp add: timer_effect_v2_def timer_effect_def falsy_def)
  show ?thesis
    by (simp only: st pa tg rm ha te addTask_v2_eq interval_tick_v2_eq simp_thms)
qed

section \<open>Derived totals\<close>

lemma pct_nearest:
  assumes e0: "0 \<le> e" and et: "e \<le> t" and t0: "0 < t" and tb: "t < 2 ^ 43"
  defines "x \<equiv> 100 * rat_of_int e / rat_of_int t"
  shows "(rat_of_int (Math_round x) \<noteq> x + 1 / 2 \<longrightarrow> pct t e = Math_round x) \<and>
         (pct t e = Math_round x \<or> pct t e = Math_round x - 1)"
proof -
  define xh where "xh = binary64 (binary64 (rat_of_int e / rat_of_int t) * 100)"
  define k where "k = Math_round x"
  define d :: rat where "d = 1 / (2 * rat_of_int t)"
  define N where "N = 200 * e + t"
  have T: "0 < rat_of_int t" using t0 by simp
  have p: "pct t e = \<lfloor>xh + 1 / 2\<rfloor>"
    using t0 by (simp add: pct_def Math_round_def xh_def)
  have x0: "0 \<le> x" using e0 t0 by (simp add: x_def)
  have "rat_of_int e \<le> rat_of_int t" using et by simp
  then have x100: "x \<le> 100" using T by (simp add: x_def field_simps)
  have xq: "rat_of_int e / rat_of_int t * 100 = x" by (simp add: x_def)
  have "\<bar>xh - x\<bar> \<le> \<bar>x\<bar> / 2 ^ 51"
    using product_error [of "rat_of_int e / rat_of_int t"]
    unfolding xh_def [symmetric] xq .
  also have "\<dots> \<le> 100 / 2 ^ 51" using x0 x100 by simp
  also have "\<dots> < d"
  proof -
    have "200 * t < 2 ^ 51" using tb by simp
    then have "rat_of_int (200 * t) < rat_of_int (2 ^ 51)" by (simp only: of_int_less_iff)
    then have "200 * rat_of_int t < 2 ^ 51" by simp
    then show ?thesis using T by (simp add: d_def field_simps)
  qed
  finally have close: "\<bar>xh - x\<bar> < d" .
  have d0: "0 < d" using T by (simp add: d_def)
  have d1: "d \<le> 1"
  proof -
    have "1 \<le> rat_of_int t" using t0 by simp
    then show ?thesis using T by (simp add: d_def field_simps)
  qed
  have xN: "x + 1 / 2 = rat_of_int N * d"
    using T by (simp add: x_def N_def d_def field_simps)
  have kd: "rat_of_int k = rat_of_int (2 * t * k) * d" for k
    using T by (simp add: d_def field_simps)
  have lo: "rat_of_int k \<le> x + 1 / 2" and hi: "x + 1 / 2 < rat_of_int k + 1"
    unfolding k_def Math_round_def by linarith+
  have hi': "x + 1 / 2 \<le> rat_of_int k + 1 - d"
  proof -
    have "rat_of_int N * d < rat_of_int (k + 1)"
      using hi by (simp add: xN)
    also have "\<dots> = rat_of_int (2 * t * (k + 1)) * d" by (rule kd)
    finally have "rat_of_int N * d < rat_of_int (2 * t * (k + 1)) * d" .
    then have "rat_of_int N < rat_of_int (2 * t * (k + 1))"
      using d0 by (simp only: mult_less_cancel_right_pos)
    then have "N < 2 * t * (k + 1)" by (simp only: of_int_less_iff)
    then have "N + 1 \<le> 2 * t * (k + 1)" by simp
    then have "rat_of_int (N + 1) \<le> rat_of_int (2 * t * (k + 1))" by (simp only: of_int_le_iff)
    then have "rat_of_int (N + 1) * d \<le> rat_of_int (2 * t * (k + 1)) * d"
      using d0 by (simp only: mult_le_cancel_right_pos)
    also have "\<dots> = rat_of_int (k + 1)" by (rule kd [symmetric])
    finally have "rat_of_int N * d + d \<le> rat_of_int k + 1"
      by (simp add: algebra_simps)
    then show ?thesis
      by (simp add: xN)
  qed
  have upper: "xh + 1 / 2 < rat_of_int k + 1"
    using close hi' by linarith
  have lower: "rat_of_int (k - 1) \<le> xh + 1 / 2"
    using close lo d1 by (simp only: of_int_diff of_int_1; linarith?)
  have either: "pct t e = k \<or> pct t e = k - 1"
  proof (cases "rat_of_int k \<le> xh + 1 / 2")
    case True
    with upper have "\<lfloor>xh + 1 / 2\<rfloor> = k" by (intro floor_unique) simp_all
    then show ?thesis by (simp add: p)
  next
    case False
    with lower have "\<lfloor>xh + 1 / 2\<rfloor> = k - 1" by (intro floor_unique) simp_all
    then show ?thesis by (simp add: p)
  qed
  have exact: "pct t e = k" if nt: "rat_of_int k \<noteq> x + 1 / 2"
  proof -
    from nt lo have "rat_of_int k < x + 1 / 2" by simp
    then have "rat_of_int k < rat_of_int N * d" by (simp add: xN)
    then have "rat_of_int (2 * t * k) * d < rat_of_int N * d"
      by (simp only: kd [symmetric])
    then have "rat_of_int (2 * t * k) < rat_of_int N"
      using d0 by (simp only: mult_less_cancel_right_pos)
    then have "2 * t * k < N" by (simp only: of_int_less_iff)
    then have "2 * t * k + 1 \<le> N" by simp
    then have "rat_of_int (2 * t * k + 1) \<le> rat_of_int N" by (simp only: of_int_le_iff)
    then have "rat_of_int (2 * t * k + 1) * d \<le> rat_of_int N * d"
      using d0 by (simp only: mult_le_cancel_right_pos)
    moreover have "rat_of_int (2 * t * k + 1) * d = rat_of_int (2 * t * k) * d + d"
      by (simp add: algebra_simps)
    ultimately have "rat_of_int (2 * t * k) * d + d \<le> rat_of_int N * d" by simp
    then have "rat_of_int k + d \<le> x + 1 / 2"
      by (simp only: kd [symmetric] xN)
    with close have "rat_of_int k \<le> xh + 1 / 2"
      by linarith
    with upper have "\<lfloor>xh + 1 / 2\<rfloor> = k" by (intro floor_unique) simp_all
    then show ?thesis by (simp add: p)
  qed
  from either exact show ?thesis by (simp add: k_def)
qed


lemma foldl_num_add:
  "\<bar>a\<bar> + sum_list (map (\<lambda>t. \<bar>elapsed t\<bar>) ts) \<le> 2 ^ 53 \<Longrightarrow>
     foldl (\<lambda>sum t. num_add sum (elapsed t)) a ts = a + sum_list (map elapsed ts)"
proof (induction ts arbitrary: a)
  case Nil
  then show ?case by simp
next
  case (Cons t ts)
  have nn: "0 \<le> sum_list (map (\<lambda>t. \<bar>elapsed t\<bar>) ts)"
    by (intro sum_list_nonneg) auto
  from Cons.prems nn have "\<bar>a + elapsed t\<bar> \<le> 2 ^ 53" by simp
  then have ex: "num_add a (elapsed t) = a + elapsed t" by (rule num_add_exact)
  from Cons.prems have "\<bar>a + elapsed t\<bar> + sum_list (map (\<lambda>t. \<bar>elapsed t\<bar>) ts) \<le> 2 ^ 53"
    by simp
  from Cons.IH [OF this] show ?case by (simp add: ex)
qed

lemma totalTime_exact:
  "sum_list (map (\<lambda>t. \<bar>elapsed t\<bar>) ts) \<le> 2 ^ 53 \<Longrightarrow> totalTime ts = sum_list (map elapsed ts)"
  using foldl_num_add [of 0 ts] by (simp add: totalTime_def)

lemma totalTime_nonneg:
  assumes "\<forall>t \<in> set ts. 0 \<le> elapsed t" and "sum_list (map elapsed ts) < 2 ^ 43"
  shows "totalTime ts = sum_list (map elapsed ts)"
proof -
  from assms(1) have m: "map (\<lambda>t. \<bar>elapsed t\<bar>) ts = map elapsed ts" by simp
  from assms(2) have "sum_list (map elapsed ts) \<le> 2 ^ 53" by simp
  then have "sum_list (map (\<lambda>t. \<bar>elapsed t\<bar>) ts) \<le> 2 ^ 53" by (simp only: m)
  then show ?thesis by (rule totalTime_exact)
qed

lemma elapsed_le_sum_list:
  assumes "\<forall>t \<in> set ts. 0 \<le> elapsed t" and "t \<in> set ts"
  shows "elapsed t \<le> sum_list (map elapsed ts)"
  using assms
proof (induction ts)
  case Nil
  then show ?case by simp
next
  case (Cons u us)
  have nn: "0 \<le> sum_list (map elapsed us)"
    using Cons.prems(1) by (intro sum_list_nonneg) auto
  show ?case
  proof (cases "t = u")
    case True
    with nn show ?thesis by simp
  next
    case False
    with Cons.prems have "t \<in> set us" by simp
    with Cons have "elapsed t \<le> sum_list (map elapsed us)" by simp
    moreover from Cons.prems(1) have "0 \<le> elapsed u" by simp
    ultimately show ?thesis by simp
  qed
qed

lemma fst_summary:
  "map fst (summary ts) = sort_key (\<lambda>t. - elapsed t) (filter (\<lambda>t. 0 < elapsed t) ts)"
  by (simp add: summary_def comp_def)

lemma snd_summary:
  "map snd (summary ts) = map (\<lambda>t. pct (totalTime ts) (elapsed t)) (map fst (summary ts))"
  by (simp add: summary_def comp_def)

lemma sorted_desc_summary:
  "sorted_wrt (\<lambda>a b. elapsed b \<le> elapsed a) (map fst (summary ts))"
proof -
  have "sorted (map (\<lambda>t. - elapsed t) (map fst (summary ts)))"
    unfolding fst_summary by (rule sorted_sort_key)
  then show ?thesis
    by (simp add: sorted_wrt_map comp_def)
qed

text \<open>
  C9, amended. The total is the sum of the elapsed times when the absolute values of the
  elapsed times sum to at most \<open>2 ^ 53\<close>. The summary holds exactly the tasks with positive
  elapsed time, in descending order of elapsed time, each with the percentage \<open>pct\<close> of
  its elapsed time, which is 0 when the total is not positive. When no elapsed time is
  negative and their sum is below \<open>2 ^ 43\<close> milliseconds, the total is that sum and the
  percentage of a task in the summary equals \<open>round(100 * elapsed / total)\<close> unless
  \<open>100 * elapsed / total\<close> lies exactly halfway between two integers, and then it is one
  of these two integers.
\<close>

theorem derived_totals:
  "(sum_list (map (\<lambda>t. \<bar>elapsed t\<bar>) ts) \<le> 2 ^ 53 \<longrightarrow>
      totalTime ts = sum_list (map elapsed ts)) \<and>
   mset (map fst (summary ts)) = mset (filter (\<lambda>t. 0 < elapsed t) ts) \<and>
   sorted_wrt (\<lambda>a b. elapsed b \<le> elapsed a) (map fst (summary ts)) \<and>
   map snd (summary ts) = map (\<lambda>t. pct (totalTime ts) (elapsed t)) (map fst (summary ts)) \<and>
   (totalTime ts \<le> 0 \<longrightarrow> pct (totalTime ts) e = 0) \<and>
   ((\<forall>t \<in> set ts. 0 \<le> elapsed t) \<and> sum_list (map elapsed ts) < 2 ^ 43 \<longrightarrow>
      totalTime ts = sum_list (map elapsed ts) \<and>
      (\<forall>(t, p) \<in> set (summary ts).
         (rat_of_int (Math_round (100 * rat_of_int (elapsed t) / rat_of_int (totalTime ts)))
            \<noteq> 100 * rat_of_int (elapsed t) / rat_of_int (totalTime ts) + 1 / 2 \<longrightarrow>
          p = Math_round (100 * rat_of_int (elapsed t) / rat_of_int (totalTime ts))) \<and>
         (p = Math_round (100 * rat_of_int (elapsed t) / rat_of_int (totalTime ts)) \<or>
          p = Math_round (100 * rat_of_int (elapsed t) / rat_of_int (totalTime ts)) - 1)))"
proof -
  have t: "sum_list (map (\<lambda>t. \<bar>elapsed t\<bar>) ts) \<le> 2 ^ 53 \<longrightarrow>
      totalTime ts = sum_list (map elapsed ts)"
    using totalTime_exact by blast
  have a: "mset (map fst (summary ts)) = mset (filter (\<lambda>t. 0 < elapsed t) ts)"
    by (simp add: fst_summary)
  have b: "totalTime ts \<le> 0 \<longrightarrow> pct (totalTime ts) e = 0"
    by (simp add: pct_def)
  have c: "totalTime ts = sum_list (map elapsed ts) \<and>
      (\<forall>(t, p) \<in> set (summary ts).
         (rat_of_int (Math_round (100 * rat_of_int (elapsed t) / rat_of_int (totalTime ts)))
            \<noteq> 100 * rat_of_int (elapsed t) / rat_of_int (totalTime ts) + 1 / 2 \<longrightarrow>
          p = Math_round (100 * rat_of_int (elapsed t) / rat_of_int (totalTime ts))) \<and>
         (p = Math_round (100 * rat_of_int (elapsed t) / rat_of_int (totalTime ts)) \<or>
          p = Math_round (100 * rat_of_int (elapsed t) / rat_of_int (totalTime ts)) - 1))"
    if nn: "\<forall>t \<in> set ts. 0 \<le> elapsed t" and bd: "sum_list (map elapsed ts) < 2 ^ 43"
  proof (intro conjI ballI, goal_cases)
    case 1
    from nn bd show ?case by (rule totalTime_nonneg)
  next
    case (2 tp)
    obtain t p where tp: "tp = (t, p)" by (cases tp)
    from nn bd have tot: "totalTime ts = sum_list (map elapsed ts)" by (rule totalTime_nonneg)
    from 2 tp have p: "p = pct (totalTime ts) (elapsed t)" and t: "t \<in> set ts"
      and pos: "0 < elapsed t"
      by (auto simp: summary_def)
    from nn t have le: "elapsed t \<le> totalTime ts"
      unfolding tot by (rule elapsed_le_sum_list)
    with pos have t0: "0 < totalTime ts" by simp
    from pos have e0: "0 \<le> elapsed t" by simp
    from bd have bd': "totalTime ts < 2 ^ 43" by (simp only: tot)
    from pct_nearest [OF e0 le t0 bd'] show ?case
      unfolding tp prod.case p .
  qed
  have c': "(\<forall>t \<in> set ts. 0 \<le> elapsed t) \<and> sum_list (map elapsed ts) < 2 ^ 43 \<longrightarrow>
      totalTime ts = sum_list (map elapsed ts) \<and>
      (\<forall>(t, p) \<in> set (summary ts).
         (rat_of_int (Math_round (100 * rat_of_int (elapsed t) / rat_of_int (totalTime ts)))
            \<noteq> 100 * rat_of_int (elapsed t) / rat_of_int (totalTime ts) + 1 / 2 \<longrightarrow>
          p = Math_round (100 * rat_of_int (elapsed t) / rat_of_int (totalTime ts))) \<and>
         (p = Math_round (100 * rat_of_int (elapsed t) / rat_of_int (totalTime ts)) \<or>
          p = Math_round (100 * rat_of_int (elapsed t) / rat_of_int (totalTime ts)) - 1))"
    by (intro impI, elim conjE, rule c)
  have s: "sorted_wrt (\<lambda>a b. elapsed b \<le> elapsed a) (map fst (summary ts))"
    by (rule sorted_desc_summary)
  have sn: "map snd (summary ts) =
      map (\<lambda>t. pct (totalTime ts) (elapsed t)) (map fst (summary ts))"
    by (rule snd_summary)
  from t a s sn b c' show ?thesis
    by (intro conjI)
qed

lemma pct_40_23: "pct 40 23 = 57"
  by code_simp

lemma pct_40_17: "pct 40 17 = 43"
  by code_simp

lemma totalTime_tie_tasks: "totalTime tie_tasks = 40"
  by (simp add: totalTime_def tie_tasks_def num_add_exact)

lemma summary_tie_tasks:
  "summary tie_tasks =
     [(\<lparr>id_task = js ''a'', name = js ''Meeting'', elapsed = 23, isDevOps = False\<rparr>, 57),
      (\<lparr>id_task = js ''b'', name = js ''Admin'', elapsed = 17, isDevOps = False\<rparr>, 43)]"
  unfolding summary_def totalTime_tie_tasks
  by (simp add: tie_tasks_def pct_40_23 pct_40_17)

text \<open>
  C9 as stated fails on a tie: with elapsed times 23 and 17 the total is 40 and
  \<open>100 * 23 / 40\<close> is 57.5, which rounds to 58, but the quotient \<open>23 / 40\<close> rounded to
  binary64 and multiplied by 100 gives a number just below 57.5, and the percentage shown
  is 57. It also fails for the total beyond \<open>2 ^ 53\<close>: the elapsed times \<open>2 ^ 53\<close> and 1 have
  the total \<open>2 ^ 53\<close>.
\<close>

theorem percentage_counterexample:
  "totalTime tie_tasks = 40 \<and>
   map (elapsed \<circ> fst) (summary tie_tasks) = [23, 17] \<and>
   map snd (summary tie_tasks) = [57, 43] \<and>
   map (\<lambda>t. Math_round (100 * rat_of_int (elapsed t) / rat_of_int (totalTime tie_tasks)))
     (map fst (summary tie_tasks)) = [58, 43] \<and>
   map elapsed huge_tasks = [9007199254740992, 1] \<and>
   totalTime huge_tasks = 9007199254740992 \<and>
   sum_list (map elapsed huge_tasks) = 9007199254740993"
proof -
  have a: "map (elapsed \<circ> fst) (summary tie_tasks) = [23, 17] \<and>
   map snd (summary tie_tasks) = [57, 43] \<and>
   map (\<lambda>t. Math_round (100 * rat_of_int (elapsed t) / rat_of_int (totalTime tie_tasks)))
     (map fst (summary tie_tasks)) = [58, 43]"
    by (simp add: totalTime_tie_tasks summary_tie_tasks Math_round_def)
  have h: "map elapsed huge_tasks = [9007199254740992, 1]"
    by (simp add: huge_tasks_def)
  have "num_add 0 9007199254740992 = 9007199254740992"
    by (simp add: num_add_exact)
  then have b: "totalTime huge_tasks = 9007199254740992"
    by (simp add: totalTime_def huge_tasks_def num_add_2_53_1)
  have c: "sum_list (map elapsed huge_tasks) = 9007199254740993"
    by (simp add: huge_tasks_def)
  from totalTime_tie_tasks a h b c show ?thesis by (intro conjI) simp_all
qed

text \<open>
  C9, amended, on the spec's example: elapsed times 100, 200 and 700 give the total 1000
  and, in summary order, the percentages 70, 20 and 10; with no task the total is 0 and
  every percentage is 0.
\<close>

theorem derived_totals_witness:
  "sum_list (map (\<lambda>t. \<bar>elapsed t\<bar>) example_tasks) = 1000 \<and>
   totalTime example_tasks = 1000 \<and>
   list_all (\<lambda>t. 0 \<le> elapsed t) example_tasks \<and>
   sum_list (map elapsed example_tasks) < 2 ^ 43 \<and>
   map (elapsed \<circ> fst) (summary example_tasks) = [700, 200, 100] \<and>
   map snd (summary example_tasks) = [70, 20, 10] \<and>
   totalTime [] \<le> 0 \<and>
   pct (totalTime []) 5 = 0"
proof -
  note dt = derived_totals [of example_tasks 5]
  note d0 = derived_totals [of "[]" 5]
  have ab: "sum_list (map (\<lambda>t. \<bar>elapsed t\<bar>) example_tasks) = 1000"
    by (simp add: example_tasks_def)
  have ab': "sum_list (map (\<lambda>t. \<bar>elapsed t\<bar>) example_tasks) \<le> 2 ^ 53"
    by (simp add: ab)
  have sl: "sum_list (map elapsed example_tasks) = 1000"
    by (simp add: example_tasks_def)
  have tot: "totalTime example_tasks = 1000"
    using dt [THEN conjunct1, THEN mp, OF ab'] by (simp only: sl)
  have nn: "\<forall>t \<in> set example_tasks. 0 \<le> elapsed t"
    by (simp add: example_tasks_def)
  then have nn': "list_all (\<lambda>t. 0 \<le> elapsed t) example_tasks"
    by (simp add: list_all_iff)
  have bd: "sum_list (map elapsed example_tasks) < 2 ^ 43"
    by (simp add: sl)
  have sm: "summary example_tasks =
     [(\<lparr>id_task = js ''c'', name = js ''Email'', elapsed = 700, isDevOps = False\<rparr>,
         pct 1000 700),
      (\<lparr>id_task = js ''b'', name = js ''Admin'', elapsed = 200, isDevOps = False\<rparr>,
         pct 1000 200),
      (\<lparr>id_task = js ''a'', name = js ''Meeting'', elapsed = 100, isDevOps = False\<rparr>,
         pct 1000 100)]"
    unfolding summary_def tot by (simp add: example_tasks_def)
  have ball: "\<forall>(t, p) \<in> set (summary example_tasks).
         (rat_of_int (Math_round (100 * rat_of_int (elapsed t) /
              rat_of_int (totalTime example_tasks)))
            \<noteq> 100 * rat_of_int (elapsed t) / rat_of_int (totalTime example_tasks) + 1 / 2 \<longrightarrow>
          p = Math_round (100 * rat_of_int (elapsed t) / rat_of_int (totalTime example_tasks))) \<and>
         (p = Math_round (100 * rat_of_int (elapsed t) / rat_of_int (totalTime example_tasks)) \<or>
          p = Math_round (100 * rat_of_int (elapsed t) / rat_of_int (totalTime example_tasks)) - 1)"
    by (rule dt [THEN conjunct2, THEN conjunct2, THEN conjunct2, THEN conjunct2, THEN conjunct2,
          THEN mp, OF conjI [OF nn bd], THEN conjunct2])
  have m1: "Math_round (100 * rat_of_int 700 / rat_of_int 1000) = 70"
    and m2: "Math_round (100 * rat_of_int 200 / rat_of_int 1000) = 20"
    and m3: "Math_round (100 * rat_of_int 100 / rat_of_int 1000) = 10"
    by code_simp+
  have g1: "rat_of_int (Math_round (100 * rat_of_int 700 / rat_of_int 1000))
        \<noteq> 100 * rat_of_int 700 / rat_of_int 1000 + 1 / 2 \<longrightarrow>
      pct 1000 700 = Math_round (100 * rat_of_int 700 / rat_of_int 1000)"
    using ball unfolding sm tot by simp
  have g2: "rat_of_int (Math_round (100 * rat_of_int 200 / rat_of_int 1000))
        \<noteq> 100 * rat_of_int 200 / rat_of_int 1000 + 1 / 2 \<longrightarrow>
      pct 1000 200 = Math_round (100 * rat_of_int 200 / rat_of_int 1000)"
    using ball unfolding sm tot by simp
  have g3: "rat_of_int (Math_round (100 * rat_of_int 100 / rat_of_int 1000))
        \<noteq> 100 * rat_of_int 100 / rat_of_int 1000 + 1 / 2 \<longrightarrow>
      pct 1000 100 = Math_round (100 * rat_of_int 100 / rat_of_int 1000)"
    using ball unfolding sm tot by simp
  have p1: "pct 1000 700 = 70" using g1 unfolding m1 by simp
  have p2: "pct 1000 200 = 20" using g2 unfolding m2 by simp
  have p3: "pct 1000 100 = 10" using g3 unfolding m3 by simp
  note p = p1 p2 p3
  have el: "map (elapsed \<circ> fst) (summary example_tasks) = [700, 200, 100]"
    by (simp add: sm)
  have ps: "map snd (summary example_tasks) = [70, 20, 10]"
    by (simp add: sm p)
  have z: "totalTime [] \<le> 0" by (simp add: totalTime_def)
  have pz: "pct (totalTime []) 5 = 0"
    by (rule d0 [THEN conjunct2, THEN conjunct2, THEN conjunct2, THEN conjunct2, THEN conjunct1,
          THEN mp, OF z])
  from ab tot nn' bd el ps z pz show ?thesis by (intro conjI)
qed

end
